theory Spec2Isabelle
  imports Complex_Main
begin

section \<open>JavaScript strings and numbers, as far as the helpers use them\<close>

text \<open>
  A string is a \<^typ>\<open>string\<close>: the list of its UTF-16 code units, each below 256 (the
  Latin-1 range, which holds every character the regular expressions of the source name).
\<close>

definition isWhiteSpace :: "char \<Rightarrow> bool" where
  \<comment> \<open>what \<open>String.prototype.trim\<close> strips: TAB, LF, VT, FF, CR, SP, NBSP\<close>
  "isWhiteSpace c = (c \<in> set [CHR 0x09, CHR 0x0A, CHR 0x0B, CHR 0x0C, CHR 0x0D, CHR 0x20, CHR 0xA0])"

definition trim :: "string \<Rightarrow> string" where
  "trim s = rev (dropWhile isWhiteSpace (rev (dropWhile isWhiteSpace s)))"

definition lowerChar :: "char \<Rightarrow> char" where
  \<comment> \<open>\<open>A-Z\<close> and the Latin-1 capitals \<open>0xC0-0xDE\<close> (but the multiplication sign \<open>0xD7\<close>)\<close>
  "lowerChar c =
     (let n = of_char c :: nat in
      if (65 \<le> n \<and> n \<le> 90) \<or> (192 \<le> n \<and> n \<le> 222 \<and> n \<noteq> 215) then char_of (n + 32) else c)"

definition toLowerCase :: "string \<Rightarrow> string" where
  "toLowerCase s = map lowerChar s"

definition isDigit :: "char \<Rightarrow> bool" where
  \<comment> \<open>the class \<open>\\d\<close> of a regular expression without the \<open>u\<close> flag: \<open>0-9\<close>\<close>
  "isDigit c = (let n = of_char c :: nat in 48 \<le> n \<and> n \<le> 57)"

definition digitChar :: "nat \<Rightarrow> char" where
  "digitChar d = char_of (48 + d)"

definition digitVal :: "char \<Rightarrow> nat" where
  "digitVal c = of_char c - 48"

fun digits :: "nat \<Rightarrow> string" where
  "digits n = (if n < 10 then [digitChar n] else digits (n div 10) @ [digitChar (n mod 10)])"

declare digits.simps [simp del]

text \<open>
  A number that is an integer is an \<^typ>\<open>int\<close>. JavaScript's numbers are doubles: every
  integer of magnitude below \<open>2^53 = 9007199254740992\<close> is one, and arithmetic on them is
  exact while its result stays below that bound. Above it, an integer stands for the double
  nearest to it (\<open>roundDouble\<close>, ties to the even significand). The model has no Infinity:
  it follows the language for magnitudes below \<open>2^1024\<close>.
\<close>

fun bitlen :: "nat \<Rightarrow> nat" where
  "bitlen n = (if n = 0 then 0 else Suc (bitlen (n div 2)))"

declare bitlen.simps [simp del]

definition roundDouble :: "nat \<Rightarrow> nat" where
  \<comment> \<open>the double nearest to \<open>y\<close>: 53 significant bits, a tie goes to the even significand\<close>
  "roundDouble y =
     (if y < 9007199254740992 then y
      else (let sh = bitlen y - 53; q = y div 2 ^ sh; r = y mod 2 ^ sh; h = 2 ^ (sh - 1)
            in (if h < r \<or> (r = h \<and> odd q) then q + 1 else q) * 2 ^ sh))"

definition roundNum :: "int \<Rightarrow> int" where
  "roundNum n = sgn n * int (roundDouble (nat \<bar>n\<bar>))"

text \<open>
  \<open>String(x)\<close> for a double \<open>x\<close> that is a positive integer (Number::toString): among the
  decimals with \<open>k\<close> significant digits that round to \<open>x\<close>, with \<open>k\<close> as small as possible,
  the one nearest to \<open>x\<close> (\<open>lo\<close> and \<open>hi\<close> are the two neighbours of \<open>x\<close> with \<open>k\<close> digits;
  a tie goes to the even last digit). Below \<open>10^21\<close> it is printed in full, its digits
  followed by zeros; from \<open>10^21\<close> on in exponent notation, as in \<open>1e+21\<close> and
  \<open>1.1805916207174113e+21\<close>.
\<close>

function shortestFrom :: "nat \<Rightarrow> nat \<Rightarrow> nat \<Rightarrow> nat" where
  "shortestFrom x nd k =
     (if nd \<le> k then x
      else (let p = 10 ^ (nd - k); lo = (x div p) * p; hi = lo + p
            in if roundDouble lo = x \<and> roundDouble hi = x then
                 (if x - lo < hi - x then lo
                  else if hi - x < x - lo then hi
                  else if even (x div p) then lo else hi)
               else if roundDouble lo = x then lo
               else if roundDouble hi = x then hi
               else shortestFrom x nd (Suc k)))"
  by pat_completeness auto

termination
  by (relation "measure (\<lambda>(x, nd, k). nd - k)") auto

declare shortestFrom.simps [simp del]

definition doubleToString :: "nat \<Rightarrow> string" where
  "doubleToString x =
     (let v = shortestFrom x (length (digits x)) 1; ds = digits v
      in if v < 1000000000000000000000 then ds
         else (let m = rev (dropWhile (\<lambda>c. c = CHR ''0'') (rev ds))
               in (if length m = 1 then m else hd m # CHR ''.'' # tl m)
                  @ ''e+'' @ digits (length ds - 1)))"

definition numToString :: "int \<Rightarrow> string" where
  \<comment> \<open>\<open>String(n)\<close>, the value a template literal inserts, for an integer \<open>n\<close>: below
      \<open>2^53\<close> every integer is a double and its shortest digits are its decimal digits\<close>
  "numToString n =
     (let m = nat \<bar>n\<bar>;
          s = (if m < 9007199254740992 then digits m else doubleToString (roundDouble m))
      in if n < 0 then CHR ''-'' # s else s)"

definition parseInt10 :: "string \<Rightarrow> int" where
  \<comment> \<open>\<open>parseInt(ds, 10)\<close> on a string of decimal digits (a capture of \<open>\\d+\<close>): the
      double nearest to the integer that the digits write\<close>
  "parseInt10 ds = roundNum (int (foldl (\<lambda>a c. 10 * a + digitVal c) 0 ds))"

definition mulNum :: "int \<Rightarrow> int \<Rightarrow> int" where
  \<comment> \<open>\<open>a * b\<close> on numbers that are integers: the double nearest to the product\<close>
  "mulNum a b = roundNum (a * b)"

text \<open>
  What a call can raise: the TypeError and RangeError of the language itself (their
  messages are the engine's and are left out) and the \<open>Error\<close> that the source throws,
  with its message.
\<close>

datatype js_error = TypeError | RangeError | Error string

section \<open>InfluxDbFormatter: retention periods\<close>

definition matchRetention :: "string \<Rightarrow> (string \<times> char) option" where
  \<comment> \<open>\<open>trimmed.match(/^(\\d+)([dhms])$/)\<close>: the two captures, or \<open>None\<close> for \<open>null\<close>\<close>
  "matchRetention s =
     (if s \<noteq> [] \<and> butlast s \<noteq> [] \<and> list_all isDigit (butlast s) \<and> last s \<in> set ''dhms''
      then Some (butlast s, last s) else None)"

definition multipliers :: "char \<Rightarrow> int option" where
  "multipliers = map_of [(CHR ''s'', 1), (CHR ''m'', 60), (CHR ''h'', 3600), (CHR ''d'', 86400)]"

definition dquote :: "char" where
  "dquote = CHR 0x22"

definition parseRetentionPeriod :: "string \<Rightarrow> js_error + int option" where
  \<comment> \<open>\<open>Inl\<close> is the thrown Error; in \<open>Inr\<close>, \<open>None\<close> is the number NaN (the product with a
      unit missing from \<open>multipliers\<close>)\<close>
  "parseRetentionPeriod period =
     (let trimmed = toLowerCase (trim period) in
      if trimmed = ''infinite'' then Inr (Some 0)
      else case matchRetention trimmed of
        None \<Rightarrow> Inl (Error (''Invalid retention period format: '' @ [dquote] @ period @ [dquote]
                 @ ''. Must be like '' @ [dquote] @ ''30d'' @ [dquote] @ '', '' @ [dquote] @ ''1y'' @ [dquote]
                 @ '', '' @ [dquote] @ ''12h'' @ [dquote] @ '', or '' @ [dquote] @ ''infinite'' @ [dquote] @ ''.''))
      | Some (m1, unit) \<Rightarrow>
          (let val = parseInt10 m1 in
           case multipliers unit of None \<Rightarrow> Inr None | Some k \<Rightarrow> Inr (Some (mulNum val k))))"

definition formatRetentionPeriod :: "int \<Rightarrow> string" where
  \<comment> \<open>\<open>seconds\<close> is a number that is an integer; \<open>%\<close> and a division without remainder
      are exact on doubles\<close>
  "formatRetentionPeriod seconds =
     (if seconds = 0 then ''infinite''
      else if seconds mod 86400 = 0 then numToString (seconds div 86400) @ ''d''
      else if seconds mod 3600 = 0 then numToString (seconds div 3600) @ ''h''
      else if seconds mod 60 = 0 then numToString (seconds div 60) @ ''m''
      else numToString seconds @ ''s'')"

section \<open>JavaScript values\<close>

text \<open>
  The validators are called with values of any type (the repository's tests pass \<open>null\<close>,
  \<open>undefined\<close>, objects and arrays). A number is NaN, an infinity or a finite value; a
  Date object holds its time value, milliseconds since the epoch, or \<open>None\<close> for the
  Invalid Date (time value NaN). Arrays, functions and other objects are opaque: the code
  only asks for their type.
\<close>

datatype jsnum = NaN | PosInfinity | NegInfinity | Finite real

datatype jsval =
    JUndefined
  | JNull
  | JBool bool
  | JNum jsnum
  | JStr string
  | JBigInt int
  | JSymbol
  | JDate "int option"
  | JArray
  | JObject
  | JFunction

fun typeof :: "jsval \<Rightarrow> string" where
  "typeof JUndefined = ''undefined''"
| "typeof JNull = ''object''"
| "typeof (JBool b) = ''boolean''"
| "typeof (JNum x) = ''number''"
| "typeof (JStr s) = ''string''"
| "typeof (JBigInt i) = ''bigint''"
| "typeof JSymbol = ''symbol''"
| "typeof (JDate t) = ''object''"
| "typeof JArray = ''object''"
| "typeof JObject = ''object''"
| "typeof JFunction = ''function''"

fun truthy :: "jsval \<Rightarrow> bool" where
  \<comment> \<open>ToBoolean: \<open>!v\<close> is \<open>\<not> truthy v\<close>\<close>
  "truthy JUndefined = False"
| "truthy JNull = False"
| "truthy (JBool b) = b"
| "truthy (JNum NaN) = False"
| "truthy (JNum (Finite r)) = (r \<noteq> 0)"
| "truthy (JNum x) = True"
| "truthy (JStr s) = (s \<noteq> [])"
| "truthy (JBigInt i) = (i \<noteq> 0)"
| "truthy v = True"

fun isFinite :: "jsnum \<Rightarrow> bool" where
  "isFinite (Finite r) = True"
| "isFinite x = False"

fun ltZero :: "jsnum \<Rightarrow> bool" where
  \<comment> \<open>\<open>x < 0\<close>; every comparison with NaN is false\<close>
  "ltZero (Finite r) = (r < 0)"
| "ltZero NegInfinity = True"
| "ltZero x = False"

text \<open>
  A string operation (a regular expression's test, \<open>startsWith\<close>, \<open>length\<close>, \<open>trim\<close>), a
  numeric one and \<open>getTime\<close> read their operand through the accessors below, which raise a
  TypeError on a value of another type. JavaScript coerces in some of these places instead
  of raising; the model raises in more cases than the program, never in fewer.
\<close>

definition asString :: "jsval \<Rightarrow> js_error + string" where
  "asString v = (case v of JStr s \<Rightarrow> Inr s | _ \<Rightarrow> Inl TypeError)"

definition asNumber :: "jsval \<Rightarrow> js_error + jsnum" where
  "asNumber v = (case v of JNum x \<Rightarrow> Inr x | _ \<Rightarrow> Inl TypeError)"

definition getTime :: "jsval \<Rightarrow> js_error + int option" where
  \<comment> \<open>\<open>date.getTime()\<close>: the time value (\<open>None\<close> is NaN); not a function on other values\<close>
  "getTime v = (case v of JDate t \<Rightarrow> Inr t | _ \<Rightarrow> Inl TypeError)"

definition instanceofDate :: "jsval \<Rightarrow> bool" where
  "instanceofDate v = (case v of JDate t \<Rightarrow> True | _ \<Rightarrow> False)"

section \<open>InfluxDbValidator\<close>

record ValidationResult =
  valid :: bool
  error :: "string option"

definition ok :: "ValidationResult" where
  \<comment> \<open>the object \<open>{ valid: true }\<close>\<close>
  "ok = \<lparr>valid = True, error = None\<rparr>"

definition invalid :: "string \<Rightarrow> ValidationResult" where
  \<comment> \<open>the object \<open>{ valid: false, error: msg }\<close>\<close>
  "invalid msg = \<lparr>valid = False, error = Some msg\<rparr>"

definition isNameChar :: "char \<Rightarrow> bool" where
  \<comment> \<open>the class \<open>[a-zA-Z0-9_-]\<close>\<close>
  "isNameChar c =
     (let n = of_char c :: nat in
      (97 \<le> n \<and> n \<le> 122) \<or> (65 \<le> n \<and> n \<le> 90) \<or> (48 \<le> n \<and> n \<le> 57)
      \<or> c = CHR ''_'' \<or> c = CHR ''-'')"

definition MEASUREMENT_NAME_REGEX :: "string \<Rightarrow> bool" where
  \<comment> \<open>\<open>/^[a-zA-Z0-9_-]+$/.test(s)\<close>\<close>
  "MEASUREMENT_NAME_REGEX s = (s \<noteq> [] \<and> list_all isNameChar s)"

definition KEY_NAME_REGEX :: "string \<Rightarrow> bool" where
  "KEY_NAME_REGEX s = (s \<noteq> [] \<and> list_all isNameChar s)"

definition BUCKET_NAME_REGEX :: "string \<Rightarrow> bool" where
  "BUCKET_NAME_REGEX s = (s \<noteq> [] \<and> list_all isNameChar s)"

definition ciMatch :: "char \<Rightarrow> char \<Rightarrow> bool" where
  \<comment> \<open>a lower-case ASCII letter \<open>p\<close> of a pattern with the \<open>i\<close> flag matches \<open>p\<close> and its capital\<close>
  "ciMatch p c = (c = p \<or> c = char_of (of_char p - (32::nat)))"

definition RETENTION_PERIOD_REGEX :: "string \<Rightarrow> bool" where
  \<comment> \<open>\<open>/^(\\d+[dhms]|infinite)$/i.test(s)\<close>\<close>
  "RETENTION_PERIOD_REGEX s =
     ((s \<noteq> [] \<and> butlast s \<noteq> [] \<and> list_all isDigit (butlast s)
        \<and> (ciMatch (CHR ''d'') (last s) \<or> ciMatch (CHR ''h'') (last s)
             \<or> ciMatch (CHR ''m'') (last s) \<or> ciMatch (CHR ''s'') (last s)))
      \<or> list_all2 ciMatch ''infinite'' s)"

definition quoted :: "string \<Rightarrow> string" where
  "quoted s = [dquote] @ s @ [dquote]"

definition validateMeasurementName :: "jsval \<Rightarrow> js_error + ValidationResult" where
  "validateMeasurementName name =
     (if \<not> truthy name \<or> typeof name \<noteq> ''string''
      then Inr (invalid ''Measurement name is required and must be a string'')
      else case asString name of Inl e \<Rightarrow> Inl e | Inr s \<Rightarrow>
        if \<not> MEASUREMENT_NAME_REGEX s
        then Inr (invalid (''Invalid measurement name '' @ quoted s
               @ ''. Must contain only alphanumeric characters, hyphens, and underscores.''))
        else Inr ok)"

definition startsWith :: "string \<Rightarrow> char \<Rightarrow> bool" where
  "startsWith s c = (case s of [] \<Rightarrow> False | x # xs \<Rightarrow> x = c)"

definition validateKeyName :: "jsval \<Rightarrow> js_error + ValidationResult" where
  "validateKeyName key =
     (if \<not> truthy key \<or> typeof key \<noteq> ''string''
      then Inr (invalid ''Key name is required and must be a string'')
      else case asString key of Inl e \<Rightarrow> Inl e | Inr s \<Rightarrow>
        if startsWith s (CHR ''_'')
        then Inr (invalid (''Key '' @ quoted s @ '' cannot start with underscore (reserved for system use)''))
        else if \<not> KEY_NAME_REGEX s
        then Inr (invalid (''Invalid key name '' @ quoted s
               @ ''. Must contain only alphanumeric characters, hyphens, and underscores.''))
        else Inr ok)"

definition validateBucketName :: "jsval \<Rightarrow> js_error + ValidationResult" where
  "validateBucketName name =
     (if \<not> truthy name \<or> typeof name \<noteq> ''string''
      then Inr (invalid ''Bucket name is required and must be a string'')
      else case asString name of Inl e \<Rightarrow> Inl e | Inr s \<Rightarrow>
        if length s > 255
        then Inr (invalid ''Bucket name must be 255 characters or less'')
        else if \<not> BUCKET_NAME_REGEX s
        then Inr (invalid (''Invalid bucket name '' @ quoted s
               @ ''. Must contain only alphanumeric characters, hyphens, and underscores.''))
        else Inr ok)"

definition validateRetentionPeriod :: "jsval \<Rightarrow> js_error + ValidationResult" where
  "validateRetentionPeriod period =
     (if \<not> truthy period \<or> typeof period \<noteq> ''string''
      then Inr (invalid ''Retention period is required and must be a string'')
      else case asString period of Inl e \<Rightarrow> Inl e | Inr s \<Rightarrow>
        if \<not> RETENTION_PERIOD_REGEX s
        then Inr (invalid (''Invalid retention period '' @ quoted s @ ''. Must be in format like ''
               @ quoted ''30d'' @ '', '' @ quoted ''1y'' @ '', '' @ quoted ''12h'' @ '', or ''
               @ quoted ''infinite'' @ ''.''))
        else Inr ok)"

definition validateFluxQuery :: "jsval \<Rightarrow> js_error + ValidationResult" where
  "validateFluxQuery query =
     (if \<not> truthy query \<or> typeof query \<noteq> ''string''
      then Inr (invalid ''Flux query is required and must be a string'')
      else case asString query of Inl e \<Rightarrow> Inl e | Inr s \<Rightarrow>
        (let trimmedQuery = trim s in
         if length trimmedQuery = 0 then Inr (invalid ''Flux query cannot be empty'')
         else
           (let openParens = count_list trimmedQuery (CHR ''('');
                closeParens = count_list trimmedQuery (CHR '')'')
            in if openParens \<noteq> closeParens then Inr (invalid ''Unbalanced parentheses in Flux query'')
            else
              (let openBrackets = count_list trimmedQuery (CHR ''['');
                   closeBrackets = count_list trimmedQuery (CHR '']'')
               in if openBrackets \<noteq> closeBrackets
                  then Inr (invalid ''Unbalanced brackets in Flux query'')
                  else Inr ok))))"

definition validateTimestamp :: "(string \<Rightarrow> int option) \<Rightarrow> jsval \<Rightarrow> js_error + ValidationResult" where
  \<comment> \<open>\<open>dateParse s\<close> is the time value of \<open>new Date(s)\<close>, which the host computes\<close>
  "validateTimestamp dateParse timestamp =
     (if instanceofDate timestamp then
        (case getTime timestamp of Inl e \<Rightarrow> Inl e | Inr t \<Rightarrow>
           if t = None then Inr (invalid ''Invalid Date object'') else Inr ok)
      else if typeof timestamp = ''number'' then
        (case asNumber timestamp of Inl e \<Rightarrow> Inl e | Inr x \<Rightarrow>
           if \<not> isFinite x \<or> ltZero x
           then Inr (invalid ''Timestamp must be a positive finite number'')
           else Inr ok)
      else if typeof timestamp = ''string'' then
        (case asString timestamp of Inl e \<Rightarrow> Inl e | Inr s \<Rightarrow>
           (let parsed = dateParse s in
            if parsed = None then Inr (invalid (''Invalid timestamp string '' @ quoted s))
            else Inr ok))
      else Inr (invalid ''Timestamp must be a Date, number, or string''))"

definition validateFieldValue :: "jsval \<Rightarrow> js_error + ValidationResult" where
  \<comment> \<open>\<open>&&\<close> evaluates \<open>isFinite(value)\<close> only when \<open>valueType\<close> is \<open>number\<close>\<close>
  "validateFieldValue v =
     (let valueType = typeof v in
      if valueType \<noteq> ''string'' \<and> valueType \<noteq> ''number'' \<and> valueType \<noteq> ''boolean''
      then Inr (invalid (''Invalid field value type '' @ quoted valueType
             @ ''. Must be string, number, or boolean.''))
      else if valueType = ''number'' then
        (case asNumber v of Inl e \<Rightarrow> Inl e | Inr x \<Rightarrow>
           if \<not> isFinite x then Inr (invalid ''Numeric field values must be finite'') else Inr ok)
      else Inr ok)"

section \<open>InfluxDbFormatter: timestamps and result rows\<close>

text \<open>
  \<open>getRelativeTime\<close> reads the clock (\<open>new Date()\<close>); the reading \<open>now\<close>, milliseconds since
  the epoch, is its first argument here. \<open>Math.floor(a / b)\<close> on integers is \<open>a div b\<close>,
  which rounds towards minus infinity as \<open>Math.floor\<close> does. With the Invalid Date every
  difference is NaN and every comparison false.
\<close>

definition plural :: "int \<Rightarrow> string" where
  \<comment> \<open>\<open>n > 1 ? 's' : ''\<close>\<close>
  "plural n = (if n > 1 then ''s'' else [])"

definition getRelativeTime :: "int \<Rightarrow> int option \<Rightarrow> string" where
  "getRelativeTime now date =
     (case date of
        None \<Rightarrow> ''just now''
      | Some t \<Rightarrow>
         (let diffMs = now - t;
              diffSec = diffMs div 1000;
              diffMin = diffSec div 60;
              diffHour = diffMin div 60;
              diffDay = diffHour div 24
          in if diffMs < 0 then
               (let absDiffSec = \<bar>diffSec\<bar>;
                    absDiffMin = \<bar>diffMin\<bar>;
                    absDiffHour = \<bar>diffHour\<bar>;
                    absDiffDay = \<bar>diffDay\<bar>
                in if absDiffDay > 0 then ''in '' @ numToString absDiffDay @ '' day'' @ plural absDiffDay
                   else if absDiffHour > 0 then ''in '' @ numToString absDiffHour @ '' hour'' @ plural absDiffHour
                   else if absDiffMin > 0 then ''in '' @ numToString absDiffMin @ '' minute'' @ plural absDiffMin
                   else ''in '' @ numToString absDiffSec @ '' second'' @ plural absDiffSec)
             else if diffDay > 0 then numToString diffDay @ '' day'' @ plural diffDay @ '' ago''
             else if diffHour > 0 then numToString diffHour @ '' hour'' @ plural diffHour @ '' ago''
             else if diffMin > 0 then numToString diffMin @ '' minute'' @ plural diffMin @ '' ago''
             else if diffSec > 0 then numToString diffSec @ '' second'' @ plural diffSec @ '' ago''
             else ''just now''))"

text \<open>
  What the host's Date gives: the clock, the time value of \<open>new Date(s)\<close> for a string
  (\<open>None\<close> when it does not parse) and the text of \<open>toISOString\<close> for a valid time value.
\<close>

record host =
  clock :: int
  dateParse :: "string \<Rightarrow> int option"
  isoText :: "int \<Rightarrow> string"

datatype tsformat = Iso | Unix | Relative | OtherFormat

definition toISOString :: "host \<Rightarrow> jsval \<Rightarrow> js_error + string" where
  \<comment> \<open>\<open>date.toISOString()\<close>: a RangeError on the Invalid Date, not a function on other values\<close>
  "toISOString h v =
     (case v of
        JDate (Some t) \<Rightarrow> Inr (isoText h t)
      | JDate None \<Rightarrow> Inl RangeError
      | _ \<Rightarrow> Inl TypeError)"

definition timeNumber :: "int option \<Rightarrow> jsnum" where
  "timeNumber t = (case t of None \<Rightarrow> NaN | Some n \<Rightarrow> Finite (of_int n))"

definition formatTimestamp :: "host \<Rightarrow> jsval \<Rightarrow> tsformat \<Rightarrow> js_error + jsval" where
  "formatTimestamp h timestamp format =
     (let date = (case timestamp of JStr s \<Rightarrow> JDate (dateParse h s) | _ \<Rightarrow> timestamp) in
      case format of
        Iso \<Rightarrow> (case toISOString h date of Inl e \<Rightarrow> Inl e | Inr s \<Rightarrow> Inr (JStr s))
      | Unix \<Rightarrow> (case getTime date of Inl e \<Rightarrow> Inl e | Inr t \<Rightarrow> Inr (JNum (timeNumber t)))
      | Relative \<Rightarrow>
          (case getTime date of Inl e \<Rightarrow> Inl e | Inr t \<Rightarrow> Inr (JStr (getRelativeTime (clock h) t)))
      | OtherFormat \<Rightarrow> Inr date)"

definition newDate :: "jsnum \<Rightarrow> jsval" where
  \<comment> \<open>\<open>new Date(x)\<close> for a number: TimeClip, NaN beyond 8.64e15 ms, else truncated\<close>
  "newDate x =
     JDate (case x of
              Finite r \<Rightarrow>
                (if \<bar>r\<bar> \<le> 8640000000000000 then Some (if r < 0 then \<lceil>r\<rceil> else \<lfloor>r\<rfloor>) else None)
            | _ \<Rightarrow> None)"

text \<open>
  A row is an object, given by the list of its own properties: for an input row in the
  order \<open>Object.entries\<close> gives them, for the output row in the order of their creation.
  Assigning to the key \<open>__proto__\<close> of the output row, an object literal, calls the setter
  of \<open>Object.prototype\<close> and creates no own property.
\<close>

type_synonym row = "(string \<times> jsval) list"

fun putProp :: "string \<Rightarrow> jsval \<Rightarrow> row \<Rightarrow> row" where
  \<comment> \<open>an own property is replaced in place, a new one is added at the end\<close>
  "putProp k v [] = [(k, v)]"
| "putProp k v ((k', v') # ps) = (if k' = k then (k, v) # ps else (k', v') # putProp k v ps)"

definition setProp :: "string \<Rightarrow> jsval \<Rightarrow> row \<Rightarrow> row" where
  \<comment> \<open>\<open>formattedRow[key] = value\<close>\<close>
  "setProp k v obj = (if k = ''__proto__'' then obj else putProp k v obj)"

record IFormatOptions =
  timestampFormat :: "tsformat option"
  flattenTables :: "bool option"
  limit :: "int option"

fun formatRow :: "host \<Rightarrow> tsformat \<Rightarrow> row \<Rightarrow> row \<Rightarrow> js_error + row" where
  \<comment> \<open>the loop over \<open>Object.entries(row)\<close>; the last argument is \<open>formattedRow\<close>\<close>
  "formatRow h fmt [] formattedRow = Inr formattedRow"
| "formatRow h fmt ((key, v) # entries) formattedRow =
     (if key = ''_time'' \<and> truthy v then
        (case formatTimestamp h v fmt of
           Inl e \<Rightarrow> Inl e
         | Inr formatted \<Rightarrow>
             formatRow h fmt entries
               (setProp ''_time'' (case formatted of JNum x \<Rightarrow> newDate x | _ \<Rightarrow> formatted) formattedRow))
      else if key = ''_measurement'' \<or> key = ''_field'' then
        formatRow h fmt entries (setProp key v formattedRow)
      else if key = ''_value'' then
        formatRow h fmt entries (setProp key v formattedRow)
      else if key \<noteq> ''table'' \<and> key \<noteq> ''result'' then
        formatRow h fmt entries (setProp key v formattedRow)
      else formatRow h fmt entries formattedRow)"

fun mapRows :: "host \<Rightarrow> tsformat \<Rightarrow> row list \<Rightarrow> js_error + row list" where
  \<comment> \<open>\<open>results.map(...)\<close>: the first row that raises ends the call\<close>
  "mapRows h fmt [] = Inr []"
| "mapRows h fmt (r # rs) =
     (case formatRow h fmt r [] of
        Inl e \<Rightarrow> Inl e
      | Inr fr \<Rightarrow> (case mapRows h fmt rs of Inl e \<Rightarrow> Inl e | Inr frs \<Rightarrow> Inr (fr # frs)))"

definition slice0 :: "'a list \<Rightarrow> int \<Rightarrow> 'a list" where
  \<comment> \<open>\<open>xs.slice(0, k)\<close>: a negative end counts from the end of the array\<close>
  "slice0 xs k = (if k < 0 then take (length xs - nat (- k)) xs else take (nat k) xs)"

definition optTimestampFormat :: "IFormatOptions option \<Rightarrow> tsformat" where
  \<comment> \<open>\<open>options?.timestampFormat ?? 'iso'\<close>\<close>
  "optTimestampFormat options =
     (case options of
        None \<Rightarrow> Iso
      | Some opts \<Rightarrow> (case timestampFormat opts of None \<Rightarrow> Iso | Some f \<Rightarrow> f))"

definition optLimit :: "IFormatOptions option \<Rightarrow> int" where
  \<comment> \<open>\<open>options?.limit ?? 0\<close>\<close>
  "optLimit options =
     (case options of
        None \<Rightarrow> 0
      | Some opts \<Rightarrow> (case limit opts of None \<Rightarrow> 0 | Some n \<Rightarrow> n))"

definition formatFluxResults :: "host \<Rightarrow> row list \<Rightarrow> IFormatOptions option \<Rightarrow> js_error + row list" where
  "formatFluxResults h results options =
     (let tsFormat = optTimestampFormat options;
          lim = optLimit options
      in case mapRows h tsFormat results of
           Inl e \<Rightarrow> Inl e
         | Inr formattedRows \<Rightarrow> if lim > 0 then Inr (slice0 formattedRows lim) else Inr formattedRows)"

section \<open>Decimal digits\<close>

lemma digitChar_nth: "d < 10 \<Longrightarrow> digitChar d = ''0123456789'' ! d"
proof -
  assume "d < 10"
  then have "d \<in> {0, 1, 2, 3, 4, 5, 6, 7, 8, 9}" by auto
  then show ?thesis
    by (auto simp add: digitChar_def char_of_def bit_iff_odd)
qed

lemma digits_nonempty: "digits n \<noteq> []"
  by (induction n rule: digits.induct) (subst digits.simps, simp)

lemma isDigit_digitChar: "d < 10 \<Longrightarrow> isDigit (digitChar d)"
  by (simp add: isDigit_def digitChar_def)

lemma digitVal_digitChar: "d < 10 \<Longrightarrow> digitVal (digitChar d) = d"
  by (simp add: digitVal_def digitChar_def)

lemma digits_all_digit: "list_all isDigit (digits n)"
proof (induction n rule: digits.induct)
  case (1 n)
  show ?case
  proof (cases "n < 10")
    case True
    then show ?thesis by (subst digits.simps) (simp add: isDigit_digitChar)
  next
    case False
    with 1 show ?thesis by (subst digits.simps) (simp add: isDigit_digitChar)
  qed
qed

lemma foldl_digits: "foldl (\<lambda>a c. 10 * a + digitVal c) 0 (digits n) = n"
proof (induction n rule: digits.induct)
  case (1 n)
  show ?case
  proof (cases "n < 10")
    case True
    then show ?thesis by (subst digits.simps) (simp add: digitVal_digitChar)
  next
    case False
    with 1 show ?thesis by (subst digits.simps) (simp add: digitVal_digitChar)
  qed
qed

lemma roundNum_safe:
  assumes "\<bar>n\<bar> < 9007199254740992"
  shows "roundNum n = n"
proof -
  from assms have "nat \<bar>n\<bar> < 9007199254740992" by linarith
  then have "roundDouble (nat \<bar>n\<bar>) = nat \<bar>n\<bar>" by (simp only: roundDouble_def if_True)
  then have "roundNum n = sgn n * \<bar>n\<bar>" by (simp add: roundNum_def)
  then show ?thesis by (simp add: mult_sgn_abs)
qed

lemma roundNum_nonneg: "0 \<le> n \<Longrightarrow> 0 \<le> roundNum n"
  by (simp add: roundNum_def sgn_if)

lemma numToString_safe:
  assumes "0 \<le> n" "n < 9007199254740992"
  shows "numToString n = digits (nat n)"
proof -
  from assms have "nat \<bar>n\<bar> = nat n" "nat n < 9007199254740992" "\<not> n < 0" by linarith+
  then show ?thesis by (simp add: numToString_def Let_def)
qed

lemma parseInt10_digits: "n < 9007199254740992 \<Longrightarrow> parseInt10 (digits n) = int n"
  by (simp add: parseInt10_def foldl_digits roundNum_safe)

lemma hd_digits_digit: "isDigit (hd (digits n))"
  using digits_nonempty[of n] digits_all_digit[of n] by (cases "digits n") simp_all

section \<open>Trimming and lower-casing\<close>

lemma trim_id:
  assumes "s \<noteq> []" "\<not> isWhiteSpace (hd s)" "\<not> isWhiteSpace (last s)"
  shows "trim s = s"
proof -
  from assms(1,2) have a: "dropWhile isWhiteSpace s = s" by (cases s) simp_all
  from assms(1,3) have b: "dropWhile isWhiteSpace (rev s) = rev s"
    by (cases "rev s") (simp_all add: last_rev[symmetric] hd_rev)
  show ?thesis by (simp add: trim_def a b)
qed

lemma isDigit_not_ws: "isDigit c \<Longrightarrow> \<not> isWhiteSpace c"
  by (auto simp add: isDigit_def isWhiteSpace_def Let_def)

lemma isDigit_lower: "isDigit c \<Longrightarrow> lowerChar c = c"
  by (auto simp add: isDigit_def lowerChar_def Let_def)

lemma digits_lower: "list_all isDigit ds \<Longrightarrow> map lowerChar ds = ds"
  by (induction ds) (simp_all add: isDigit_lower)

lemma unit_facts:
  assumes "u \<in> set ''dhms''"
  shows "\<not> isWhiteSpace u" "lowerChar u = u" "\<not> isDigit u"
  using assms by (auto simp add: isWhiteSpace_def lowerChar_def isDigit_def Let_def)

section \<open>Numbers that are doubles\<close>

text \<open>
  An integer is a double when rounding leaves it as it is: when it is below \<open>2^53\<close> or a
  multiple of \<open>2 ^ (bitlen y - 53)\<close>. So the quotient of a double by \<open>2^a * d\<close>, with
  \<open>d\<close> odd, is a double again when the division leaves no remainder; the digits that
  \<open>String\<close> prints round back to the number; and below \<open>10^21\<close> they are printed in full.
\<close>

lemma bitlen_bounds: "n < 2 ^ bitlen n \<and> (0 < n \<longrightarrow> 2 ^ (bitlen n - 1) \<le> n)"
proof (induction n rule: bitlen.induct)
  case (1 n)
  show ?case
  proof (cases "n = 0")
    case True
    then show ?thesis by (simp add: bitlen.simps)
  next
    case False
    with 1 have ih: "n div 2 < 2 ^ bitlen (n div 2)"
      "0 < n div 2 \<longrightarrow> 2 ^ (bitlen (n div 2) - 1) \<le> n div 2" by auto
    have b: "bitlen n = Suc (bitlen (n div 2))" using False by (subst bitlen.simps) simp
    from ih(1) have u: "n < 2 ^ bitlen n" unfolding b by simp
    have l: "2 ^ (bitlen n - 1) \<le> n"
    proof (cases "n div 2 = 0")
      case True
      with False have "n = 1" by presburger
      then show ?thesis by (simp add: b) (simp add: bitlen.simps)
    next
      case nz: False
      then have "0 < bitlen (n div 2)" by (subst bitlen.simps) simp
      then have "(2::nat) ^ bitlen (n div 2) = 2 * 2 ^ (bitlen (n div 2) - 1)"
        by (cases "bitlen (n div 2)") simp_all
      with ih(2) nz show ?thesis unfolding b by simp
    qed
    from u l show ?thesis by simp
  qed
qed

lemma bitlen_le: "n < 2 ^ b \<Longrightarrow> bitlen n \<le> b"
proof (rule ccontr)
  assume a: "n < 2 ^ b" and "\<not> bitlen n \<le> b"
  then have c: "b \<le> bitlen n - 1" and p: "0 < bitlen n" by simp_all
  from p have "0 < n" by (cases "n = 0") (simp_all add: bitlen.simps)
  with bitlen_bounds[of n] have "2 ^ (bitlen n - 1) \<le> n" by simp
  moreover from c have "(2::nat) ^ b \<le> 2 ^ (bitlen n - 1)" by (rule power_increasing) simp
  ultimately show False using a by linarith
qed

lemma bitlen_ge: "2 ^ b \<le> n \<Longrightarrow> b < bitlen n"
proof (rule ccontr)
  assume a: "2 ^ b \<le> n" and "\<not> b < bitlen n"
  then have "bitlen n \<le> b" by simp
  then have "(2::nat) ^ bitlen n \<le> 2 ^ b" by (rule power_increasing) simp
  with bitlen_bounds[of n] a show False by simp
qed

lemma roundDouble_big:
  assumes "\<not> y < 9007199254740992"
  shows "roundDouble y =
     (if 2 ^ (bitlen y - 53 - 1) < y mod 2 ^ (bitlen y - 53)
         \<or> (y mod 2 ^ (bitlen y - 53) = 2 ^ (bitlen y - 53 - 1) \<and> odd (y div 2 ^ (bitlen y - 53)))
      then y div 2 ^ (bitlen y - 53) + 1 else y div 2 ^ (bitlen y - 53)) * 2 ^ (bitlen y - 53)"
  unfolding roundDouble_def Let_def using assms by (simp only: if_False)

lemma big_bitlen:
  assumes "\<not> y < 9007199254740992"
  shows "53 < bitlen y"
proof -
  have "(2::nat) ^ 53 = 9007199254740992" by simp
  with assms have "2 ^ 53 \<le> y" by linarith
  then show ?thesis by (rule bitlen_ge)
qed

lemma roundDouble_fixed_iff:
  "roundDouble y = y \<longleftrightarrow> y < 9007199254740992 \<or> 2 ^ (bitlen y - 53) dvd y"
proof (cases "y < 9007199254740992")
  case True
  then show ?thesis by (simp only: roundDouble_def if_True simp_thms)
next
  case False
  define sh where "sh = bitlen y - 53"
  from big_bitlen[OF False] have shp: "0 < sh" by (simp add: sh_def)
  then have h: "(0::nat) < 2 ^ (sh - 1)" by simp
  note rd = roundDouble_big[OF False, folded sh_def]
  show ?thesis
  proof
    assume "roundDouble y = y"
    with rd have "\<exists>c. y = c * 2 ^ sh" by metis
    then have "2 ^ sh dvd y" by auto
    then show "y < 9007199254740992 \<or> 2 ^ (bitlen y - 53) dvd y" by (simp add: sh_def)
  next
    assume "y < 9007199254740992 \<or> 2 ^ (bitlen y - 53) dvd y"
    with False have d: "2 ^ sh dvd y" by (simp add: sh_def)
    then have r: "y mod 2 ^ sh = 0" by simp
    from d have q: "y div 2 ^ sh * 2 ^ sh = y" by simp
    from h have c: "\<not> (2 ^ (sh - 1) < (0::nat) \<or> ((0::nat) = 2 ^ (sh - 1) \<and> odd (y div 2 ^ sh)))"
      by simp
    show "roundDouble y = y" unfolding rd r using c q by (simp only: if_False)
  qed
qed

lemma roundDouble_fixed_div:
  assumes f: "roundDouble (q * (2 ^ a * d)) = q * (2 ^ a * d)" and d: "odd d"
  shows "roundDouble q = q"
proof (cases "q < 9007199254740992")
  case True
  then show ?thesis by (simp only: roundDouble_fixed_iff simp_thms)
next
  case False
  define y where "y = q * (2 ^ a * d)"
  from d have dp: "1 \<le> d" by (cases d) simp_all
  then have "q * 2 ^ a * 1 \<le> q * 2 ^ a * d" by (rule mult_le_mono2)
  then have qa: "q * 2 ^ a \<le> y" by (simp add: y_def mult.assoc)
  have "q \<le> q * 2 ^ a" by simp
  then have "q \<le> y" using qa by (rule le_trans)
  with False have big: "\<not> y < 9007199254740992" by simp
  from f have "roundDouble y = y" by (simp only: y_def)
  with big have dv: "2 ^ (bitlen y - 53) dvd y" by (simp only: roundDouble_fixed_iff simp_thms)
  from big_bitlen[OF False] have bq: "53 < bitlen q" .
  then have "0 < q" by (cases "q = 0") (simp_all add: bitlen.simps)
  with bitlen_bounds[of q] have "2 ^ (bitlen q - 1) \<le> q" by simp
  then have "2 ^ (bitlen q - 1) * 2 ^ a \<le> q * 2 ^ a" by (rule mult_le_mono1)
  then have "2 ^ (bitlen q - 1) * 2 ^ a \<le> y" using qa by (rule le_trans)
  then have "2 ^ (bitlen q - 1 + a) \<le> y" by (simp only: power_add)
  then have "bitlen q - 1 + a < bitlen y" by (rule bitlen_ge)
  with bq have "bitlen q - 53 + a \<le> bitlen y - 53" by simp
  then have "(2::nat) ^ (bitlen q - 53 + a) dvd 2 ^ (bitlen y - 53)" by (rule le_imp_power_dvd)
  then have "2 ^ (bitlen q - 53 + a) dvd y" using dv by (rule dvd_trans)
  then have "2 ^ (bitlen q - 53 + a) dvd (q * 2 ^ a) * d" by (simp add: y_def mult.assoc)
  moreover from d have "coprime ((2::nat) ^ (bitlen q - 53 + a)) d" by simp
  ultimately have "2 ^ (bitlen q - 53 + a) dvd q * 2 ^ a"
    by (simp only: coprime_dvd_mult_left_iff)
  then have "2 ^ (bitlen q - 53) * 2 ^ a dvd q * 2 ^ a" by (simp only: power_add)
  then have "2 ^ (bitlen q - 53) dvd q" by simp
  then show ?thesis by (simp only: roundDouble_fixed_iff simp_thms)
qed

lemma digits_bound: "n < 10 ^ length (digits n)"
proof (induction n rule: digits.induct)
  case (1 n)
  show ?case
  proof (cases "n < 10")
    case True
    then show ?thesis by (subst digits.simps) simp
  next
    case False
    with 1 have "n div 10 < 10 ^ length (digits (n div 10))" by simp
    then have "n < 10 * 10 ^ length (digits (n div 10))" by simp
    with False show ?thesis by (subst digits.simps) simp
  qed
qed

lemma digits_length_le: "n < 10 ^ m \<Longrightarrow> 0 < m \<Longrightarrow> length (digits n) \<le> m"
proof (induction n arbitrary: m rule: digits.induct)
  case (1 n)
  show ?case
  proof (cases "n < 10")
    case True
    with 1(3) show ?thesis by (subst digits.simps) simp
  next
    case False
    from 1(3) obtain m' where m: "m = Suc m'" by (cases m) simp_all
    with 1(2) have "n div 10 < 10 ^ m'" by (simp add: less_mult_imp_div_less mult.commute)
    moreover from False this have "0 < m'" by (cases m') simp_all
    ultimately have "length (digits (n div 10)) \<le> m'" using 1(1) False by simp
    with False m show ?thesis by (subst digits.simps) simp
  qed
qed

lemma shortestFrom_rounds:
  "roundDouble x = x \<Longrightarrow> roundDouble (shortestFrom x nd k) = x"
proof (induction x nd k rule: shortestFrom.induct)
  case (1 x nd k)
  show ?case
  proof (cases "nd \<le> k")
    case True
    with 1(2) show ?thesis by (subst shortestFrom.simps) simp
  next
    case False
    define p where "p = (10::nat) ^ (nd - k)"
    define lo where "lo = (x div p) * p"
    define hi where "hi = lo + p"
    have e: "shortestFrom x nd k =
       (if roundDouble lo = x \<and> roundDouble hi = x then
          (if x - lo < hi - x then lo else if hi - x < x - lo then hi
           else if even (x div p) then lo else hi)
        else if roundDouble lo = x then lo
        else if roundDouble hi = x then hi
        else shortestFrom x nd (Suc k))"
      using False by (subst shortestFrom.simps) (simp add: Let_def p_def lo_def hi_def)
    show ?thesis
    proof (cases "roundDouble lo = x \<or> roundDouble hi = x")
      case True
      then show ?thesis unfolding e by auto
    next
      case n: False
      then have "shortestFrom x nd k = shortestFrom x nd (Suc k)" unfolding e by simp
      moreover have "roundDouble (shortestFrom x nd (Suc k)) = x"
        using 1(1)[OF False refl refl refl _ _ _ 1(2)] n by (simp add: p_def lo_def hi_def)
      ultimately show ?thesis by simp
    qed
  qed
qed

lemma bitlen_1e21: "bitlen 1000000000000000000000 = 70"
  by (simp add: bitlen.simps)

lemma roundDouble_1e21: "roundDouble 1000000000000000000000 = 1000000000000000000000"
  by (simp add: roundDouble_def bitlen_1e21)

lemma bitlen_2e21: "bitlen 2000000000000000000000 = 71"
  by (simp add: bitlen.simps)

lemma roundDouble_2e21: "roundDouble 2000000000000000000000 = 2000000000000000000000"
  by (simp add: roundDouble_def bitlen_2e21)

lemma digits_1e21: "digits 1000000000000000000000 = ''1000000000000000000000''"
  by (simp add: digits.simps digitChar_nth)

lemma shortestFrom_1e21: "shortestFrom 1000000000000000000000 22 1 = 1000000000000000000000"
  by (subst shortestFrom.simps) (simp add: roundDouble_1e21 roundDouble_2e21)

lemma doubleToString_1e21: "doubleToString 1000000000000000000000 = ''1e+21''"
proof -
  have l: "length (digits 1000000000000000000000) = 22" by (simp add: digits_1e21)
  have d: "digits 21 = ''21''" by (simp add: digits.simps digitChar_nth)
  have "doubleToString 1000000000000000000000 =
      (if (1000000000000000000000::nat) < 1000000000000000000000
       then digits 1000000000000000000000
       else (if length (rev (dropWhile (\<lambda>c. c = CHR ''0'') (rev (digits 1000000000000000000000)))) = 1
             then rev (dropWhile (\<lambda>c. c = CHR ''0'') (rev (digits 1000000000000000000000)))
             else hd (rev (dropWhile (\<lambda>c. c = CHR ''0'') (rev (digits 1000000000000000000000))))
                  # CHR ''.''
                  # tl (rev (dropWhile (\<lambda>c. c = CHR ''0'') (rev (digits 1000000000000000000000)))))
            @ ''e+'' @ digits (22 - 1))"
    by (simp only: doubleToString_def Let_def l shortestFrom_1e21)
  also have "(22::nat) - 1 = 21" by simp
  finally have e: "doubleToString 1000000000000000000000 =
      (if (1000000000000000000000::nat) < 1000000000000000000000
       then digits 1000000000000000000000
       else (if length (rev (dropWhile (\<lambda>c. c = CHR ''0'') (rev (digits 1000000000000000000000)))) = 1
             then rev (dropWhile (\<lambda>c. c = CHR ''0'') (rev (digits 1000000000000000000000)))
             else hd (rev (dropWhile (\<lambda>c. c = CHR ''0'') (rev (digits 1000000000000000000000))))
                  # CHR ''.''
                  # tl (rev (dropWhile (\<lambda>c. c = CHR ''0'') (rev (digits 1000000000000000000000)))))
            @ ''e+'' @ ''21'')"
    by (simp only: d)
  show ?thesis unfolding e by (simp add: digits_1e21)
qed

lemma numToString_1e21: "numToString 1000000000000000000000 = ''1e+21''"
  by (simp add: numToString_def roundDouble_1e21 doubleToString_1e21)

lemma next_multiple_le:
  fixes p :: nat
  assumes "p dvd M" "p dvd lo" "lo < M"
  shows "lo + p \<le> M"
proof -
  from assms(1) obtain b where b: "M = p * b" by (rule dvdE)
  from assms(2) obtain a where a: "lo = p * a" by (rule dvdE)
  from assms(3) a b have "a < b" by simp
  then have "Suc a \<le> b" by simp
  then have "p * Suc a \<le> p * b" by (rule mult_le_mono2)
  with a b show ?thesis by simp
qed

lemma shortestFrom_below:
  assumes x: "x < 1000000000000000000000" and nd: "nd \<le> 21"
  shows "shortestFrom x nd k < 1000000000000000000000"
  using x nd
proof (induction x nd k rule: shortestFrom.induct)
  case (1 x nd k)
  show ?case
  proof (cases "nd \<le> k")
    case True
    with 1(2) show ?thesis by (subst shortestFrom.simps) simp
  next
    case False
    define p where "p = (10::nat) ^ (nd - k)"
    define lo where "lo = (x div p) * p"
    define hi where "hi = lo + p"
    have e: "shortestFrom x nd k =
       (if roundDouble lo = x \<and> roundDouble hi = x then
          (if x - lo < hi - x then lo else if hi - x < x - lo then hi
           else if even (x div p) then lo else hi)
        else if roundDouble lo = x then lo
        else if roundDouble hi = x then hi
        else shortestFrom x nd (Suc k))"
      using False by (subst shortestFrom.simps) (simp add: Let_def p_def lo_def hi_def)
    have "lo \<le> x" by (simp add: lo_def)
    with 1(2) have lo: "lo < 1000000000000000000000" by simp
    from 1(3) have "nd - k \<le> 21" by simp
    then have "(10::nat) ^ (nd - k) dvd 10 ^ 21" by (rule le_imp_power_dvd)
    then have pd: "p dvd 1000000000000000000000" by (simp add: p_def)
    have "p dvd lo" by (simp add: lo_def)
    with pd have "lo + p \<le> 1000000000000000000000" using lo by (rule next_multiple_le)
    then have hle: "hi \<le> 1000000000000000000000" by (simp only: hi_def)
    have hi: "hi < 1000000000000000000000" if r: "roundDouble hi = x"
    proof (rule ccontr)
      assume "\<not> hi < 1000000000000000000000"
      with hle have "hi = 1000000000000000000000" by simp
      with r have "x = 1000000000000000000000" by (simp only: roundDouble_1e21)
      with 1(2) show False by simp
    qed
    show ?thesis
    proof (cases "roundDouble lo = x \<or> roundDouble hi = x")
      case True
      then show ?thesis unfolding e using lo hi by auto
    next
      case n: False
      then have "shortestFrom x nd k = shortestFrom x nd (Suc k)" unfolding e by simp
      moreover have "shortestFrom x nd (Suc k) < 1000000000000000000000"
        using 1(1)[OF False refl refl refl _ _ _ 1(2) 1(3)] n by (simp add: p_def lo_def hi_def)
      ultimately show ?thesis by simp
    qed
  qed
qed

lemma roundNum_int: "roundNum (int v) = int (roundDouble v)"
proof (cases "v = 0")
  case True
  then show ?thesis by (simp add: roundNum_def roundDouble_def)
next
  case False
  then show ?thesis by (simp add: roundNum_def)
qed

lemma roundNum_nat:
  assumes "0 \<le> q"
  shows "roundNum q = q \<longleftrightarrow> roundDouble (nat q) = nat q"
proof -
  from assms have "q = int (nat q)" by simp
  then have "roundNum q = int (roundDouble (nat q))" using roundNum_int[of "nat q"] by simp
  with assms show ?thesis by linarith
qed

lemma numToString_double:
  assumes q: "0 \<le> q" and r: "roundNum q = q" and b: "q < 1000000000000000000000"
  shows "\<exists>v. numToString q = digits v \<and> roundNum (int v) = q"
proof (cases "q < 9007199254740992")
  case True
  with q have "numToString q = digits (nat q)" by (simp add: numToString_safe)
  moreover from q True have "roundNum (int (nat q)) = q" by (simp add: roundNum_safe)
  ultimately show ?thesis by blast
next
  case False
  define m where "m = nat q"
  define v where "v = shortestFrom m (length (digits m)) 1"
  from q have mq: "int m = q" by (simp add: m_def)
  from q r have rm: "roundDouble m = m" by (simp add: roundNum_nat m_def)
  from b q have mb: "m < 1000000000000000000000" by (simp add: m_def)
  then have "m < 10 ^ 21" by simp
  then have "length (digits m) \<le> 21" by (rule digits_length_le) simp
  with mb have vb: "v < 1000000000000000000000" unfolding v_def by (rule shortestFrom_below)
  from rm have rv: "roundDouble v = m" unfolding v_def by (rule shortestFrom_rounds)
  from False q have nm: "\<not> m < 9007199254740992" "nat \<bar>q\<bar> = m" "\<not> q < 0"
    by (simp_all add: m_def)
  have "doubleToString m = digits v"
    unfolding doubleToString_def Let_def v_def[symmetric] using vb by (simp only: if_True)
  with nm rm have "numToString q = digits v" by (simp add: numToString_def Let_def)
  moreover from rv mq have "roundNum (int v) = q" by (simp add: roundNum_int)
  ultimately show ?thesis by blast
qed

lemma roundNum_div:
  assumes q: "0 \<le> s" and r: "roundNum s = s"
    and k: "k \<in> {86400, 3600, 60, 1}" and d: "s mod k = 0"
  shows "roundNum (s div k) = s div k"
proof -
  define n where "n = nat (s div k)"
  from k have kp: "0 < k" by auto
  with q have dq: "0 \<le> s div k" by (simp add: pos_imp_zdiv_nonneg_iff)
  then have ni: "int n = s div k" by (simp add: n_def)
  from d have sk: "s = (s div k) * k" using div_mult_mod_eq[of s k] by simp
  from k obtain a e where ae: "k = int (2 ^ a * e)" "odd e"
  proof -
    have "(86400::int) = int (2 ^ 7 * 675)" "(3600::int) = int (2 ^ 4 * 225)"
      "(60::int) = int (2 ^ 2 * 15)" "(1::int) = int (2 ^ 0 * 1)" by simp_all
    moreover have "odd (675::nat)" "odd (225::nat)" "odd (15::nat)" "odd (1::nat)" by simp_all
    ultimately show ?thesis using k that by blast
  qed
  from sk ni ae(1) have "s = int (n * (2 ^ a * e))" by simp
  then have ns: "nat s = n * (2 ^ a * e)" by (simp only: nat_int)
  from q r have "roundDouble (nat s) = nat s" by (simp add: roundNum_nat)
  then have "roundDouble (n * (2 ^ a * e)) = n * (2 ^ a * e)" by (simp only: ns)
  then have "roundDouble n = n" using ae(2) by (rule roundDouble_fixed_div)
  with dq show ?thesis by (simp add: roundNum_nat n_def)
qed

lemma roundNum_1e21: "roundNum 1000000000000000000000 = 1000000000000000000000"
  using roundNum_int[of 1000000000000000000000] by (simp add: roundDouble_1e21)

lemma bitlen_2p64: "bitlen 18446744073709551616 = 65"
  by (simp add: bitlen.simps)

lemma roundDouble_2p64: "roundDouble 18446744073709551616 = 18446744073709551616"
  by (simp add: roundDouble_def bitlen_2p64)

lemma digits_2p64: "digits 18446744073709551616 = ''18446744073709551616''"
  by (simp add: digits.simps digitChar_nth)

lemma shortestFrom_2p64:
  "shortestFrom 18446744073709551616 20 1 = 18446744073709552000"
  by (simp add: shortestFrom.simps roundDouble_def bitlen.simps Let_def)

lemma roundNum_2p64: "roundNum 18446744073709551616 = 18446744073709551616"
  using roundNum_int[of 18446744073709551616] by (simp add: roundDouble_2p64)

lemma doubleToString_2p64: "doubleToString 18446744073709551616 = ''18446744073709552000''"
proof -
  have l: "length (digits 18446744073709551616) = 20" by (simp add: digits_2p64)
  have d: "digits 18446744073709552000 = ''18446744073709552000''"
    by (simp add: digits.simps digitChar_nth)
  have "doubleToString 18446744073709551616 =
      (if (18446744073709552000::nat) < 1000000000000000000000
       then digits 18446744073709552000 else [])"
    by (simp only: doubleToString_def Let_def l shortestFrom_2p64) simp
  then show ?thesis by (simp add: d)
qed

section \<open>Relative time\<close>

lemma getRelativeTime_now: "getRelativeTime now (Some now) = ''just now''"
  by (simp add: getRelativeTime_def)

lemma numToString_1: "numToString 1 = ''1''"
  by (simp add: numToString_safe digits.simps digitChar_nth)

lemma numToString_2: "numToString 2 = ''2''"
  by (simp add: numToString_safe digits.simps digitChar_nth)

lemma getRelativeTime_2_hours_ago: "getRelativeTime now (Some (now - 7200000)) = ''2 hours ago''"
proof -
  have d: "now - (now - 7200000) = 7200000" by simp
  have s: "(7200000::int) div 1000 = 7200" "(7200::int) div 60 = 120"
    "(120::int) div 60 = 2" "(2::int) div 24 = 0" by simp_all
  show ?thesis
    unfolding getRelativeTime_def Let_def option.case d s
    by (simp add: numToString_2 plural_def)
qed

text \<open>
  A date at or before \<open>now\<close> is rendered by the largest of day, hour, minute and second
  that is at least 1 in the floored difference, and "just now" when the difference is below
  one second.
\<close>

lemma getRelativeTime_past:
  assumes "t \<le> now"
  shows "getRelativeTime now (Some t) =
     (let s = (now - t) div 1000 in
      if 0 < s div 86400 then numToString (s div 86400) @ '' day'' @ plural (s div 86400) @ '' ago''
      else if 0 < s div 3600 then numToString (s div 3600) @ '' hour'' @ plural (s div 3600) @ '' ago''
      else if 0 < s div 60 then numToString (s div 60) @ '' minute'' @ plural (s div 60) @ '' ago''
      else if 0 < s then numToString s @ '' second'' @ plural s @ '' ago''
      else ''just now'')"
proof -
  define s where "s = (now - t) div 1000"
  have h: "s div 60 div 60 = s div 3600" by (simp add: zdiv_zmult2_eq[symmetric])
  have d: "s div 3600 div 24 = s div 86400" by (simp add: zdiv_zmult2_eq[symmetric])
  from assms have n: "\<not> now - t < 0" by simp
  show ?thesis
    unfolding getRelativeTime_def Let_def option.case s_def[symmetric] h d
    using n by (simp only: if_False)
qed

text \<open>
  Every date after \<open>now\<close> is rendered in days: the difference in seconds is negative, and
  each floor division of a negative number is negative again, so \<open>diffDay \<le> -1\<close> and
  \<open>absDiffDay > 0\<close>. The hour, minute and second branches of the future side are never taken.
\<close>

lemma getRelativeTime_future_days:
  assumes "now < t"
  shows "\<exists>n. 1 \<le> n \<and> getRelativeTime now (Some t) = ''in '' @ numToString n @ '' day'' @ plural n"
proof -
  define ms where "ms = now - t"
  define d where "d = ((ms div 1000) div 60 div 60) div 24"
  have "ms < 0" using assms by (simp add: ms_def)
  then have "ms div 1000 < 0" by simp
  then have "(ms div 1000) div 60 < 0" by simp
  then have "(ms div 1000) div 60 div 60 < 0" by simp
  then have neg: "d < 0" unfolding d_def by simp
  then have pos: "0 < \<bar>d\<bar>" by simp
  have "getRelativeTime now (Some t) = ''in '' @ numToString \<bar>d\<bar> @ '' day'' @ plural \<bar>d\<bar>"
    unfolding getRelativeTime_def Let_def option.case ms_def[symmetric] d_def[symmetric]
    using \<open>ms < 0\<close> pos by (simp only: if_True)
  moreover from neg have "1 \<le> \<bar>d\<bar>" by simp
  ultimately show ?thesis by blast
qed

text \<open>
  C1. \<open>getRelativeTime(now)\<close> is "just now" and a date two hours back is "2 hours ago"
  (the two lemmas above), but the claim's future side fails: for a date 30 minutes after
  \<open>now\<close> the claim asks for a text matching \<open>/in \\d+ minutes?/\<close>, and the function
  returns "in 1 day", whatever the clock reads.
\<close>

theorem getRelativeTime_30_minutes_ahead:
  "getRelativeTime now (Some (now + 1800000)) = ''in 1 day''"
proof -
  have d: "now - (now + 1800000) = -1800000" by simp
  have s: "(-1800000::int) div 1000 = -1800" "(-1800::int) div 60 = -30"
    "(-30::int) div 60 = -1" "(-1::int) div 24 = -1" by simp_all
  show ?thesis
    unfolding getRelativeTime_def Let_def option.case d s
    by (simp add: numToString_1 plural_def)
qed

section \<open>Retention periods\<close>

lemma parse_digits_unit_round:
  assumes u: "multipliers u = Some k"
  shows "parseRetentionPeriod (digits n @ [u]) = Inr (Some (mulNum (roundNum (int n)) k))"
proof -
  let ?s = "digits n @ [u]"
  from u have us: "u \<in> set ''dhms''"
    by (auto simp add: multipliers_def split: if_splits)
  have hd: "hd ?s = hd (digits n)" using digits_nonempty by simp
  have t: "trim ?s = ?s"
    by (rule trim_id) (simp_all add: hd isDigit_not_ws hd_digits_digit unit_facts(1)[OF us])
  have l: "toLowerCase ?s = ?s"
    by (simp add: toLowerCase_def digits_lower digits_all_digit unit_facts(2)[OF us])
  have ni: "?s \<noteq> ''infinite''"
  proof
    assume "?s = ''infinite''"
    then have "hd ?s = CHR ''i''" by simp
    with hd have "isDigit (CHR ''i'')" using hd_digits_digit[of n] by simp
    then show False by (simp add: isDigit_def Let_def)
  qed
  have m: "matchRetention ?s = Some (digits n, u)"
    using us by (simp add: matchRetention_def digits_nonempty digits_all_digit)
  have p: "parseInt10 (digits n) = roundNum (int n)" by (simp add: parseInt10_def foldl_digits)
  from ni have nif: "(?s = ''infinite'') = False" by simp
  show ?thesis
    unfolding parseRetentionPeriod_def Let_def t l
    by (simp only: nif if_False m u p option.case prod.case)
qed

lemma parse_digits_unit:
  assumes u: "multipliers u = Some k" and b: "int n * k < 9007199254740992"
  shows "parseRetentionPeriod (digits n @ [u]) = Inr (Some (int n * k))"
proof -
  from u have k: "1 \<le> k" by (auto simp add: multipliers_def split: if_splits)
  then have "int n \<le> int n * k" by (simp add: mult_le_cancel_left1)
  with b have n: "\<bar>int n\<bar> < 9007199254740992" by linarith
  from k have "0 \<le> int n * k" by simp
  with b have "\<bar>int n * k\<bar> < 9007199254740992" by linarith
  then have "mulNum (int n) k = int n * k" by (simp add: mulNum_def roundNum_safe)
  with parse_digits_unit_round[OF u, of n] roundNum_safe[OF n] show ?thesis by simp
qed

lemma parse_numToString_unit:
  assumes "0 \<le> n"
    and "(u, k) \<in> {(CHR ''d'', 86400), (CHR ''h'', 3600), (CHR ''m'', 60), (CHR ''s'', 1)}"
    and "n * k < 9007199254740992"
  shows "parseRetentionPeriod (numToString n @ [u]) = Inr (Some (n * k))"
proof -
  from assms(2) have u: "multipliers u = Some k" and k: "1 \<le> k"
    by (auto simp add: multipliers_def)
  from assms(1) k have "n \<le> n * k" by (simp add: mult_le_cancel_left1)
  with assms(3) have "n < 9007199254740992" by linarith
  with assms(1) have s: "numToString n = digits (nat n)" by (simp add: numToString_safe)
  from assms(1,3) have "int (nat n) * k < 9007199254740992" by simp
  from parse_digits_unit[OF u this] assms(1) s show ?thesis by simp
qed

lemma parse_infinite: "parseRetentionPeriod ''infinite'' = Inr (Some 0)"
  by (simp add: parseRetentionPeriod_def trim_def toLowerCase_def lowerChar_def isWhiteSpace_def)

lemma parse_INFINITE: "parseRetentionPeriod ''INFINITE'' = Inr (Some 0)"
  by (simp add: parseRetentionPeriod_def trim_def toLowerCase_def lowerChar_def isWhiteSpace_def
      char_of_def bit_iff_odd)

lemma parse_format_roundtrip:
  assumes nn: "0 \<le> seconds" and r: "roundNum seconds = seconds"
    and b: "seconds < 1000000000000000000000"
  shows "parseRetentionPeriod (formatRetentionPeriod seconds) = Inr (Some seconds)"
proof (cases "seconds = 0")
  case True
  then show ?thesis by (simp add: formatRetentionPeriod_def parse_infinite)
next
  case False
  have step: "parseRetentionPeriod (numToString (seconds div k) @ [u]) = Inr (Some seconds)"
    if u: "multipliers u = Some k" and d: "seconds mod k = 0" for u k
  proof -
    from u have k: "k \<in> {86400, 3600, 60, 1}" by (auto simp add: multipliers_def split: if_splits)
    then have kp: "1 \<le> k" by auto
    with nn have q: "0 \<le> seconds div k" by (simp add: pos_imp_zdiv_nonneg_iff)
    from d have e: "seconds div k * k = seconds" using div_mult_mod_eq[of seconds k] by simp
    from kp q have "seconds div k * 1 \<le> seconds div k * k" by (rule mult_left_mono)
    with e have "seconds div k \<le> seconds" by simp
    with b have qb: "seconds div k < 1000000000000000000000" by simp
    from nn r k d have "roundNum (seconds div k) = seconds div k" by (rule roundNum_div)
    with q obtain v where v: "numToString (seconds div k) = digits v"
      "roundNum (int v) = seconds div k" using qb numToString_double by blast
    from e r have "mulNum (seconds div k) k = seconds" by (simp add: mulNum_def)
    with parse_digits_unit_round[OF u, of v] v show ?thesis by simp
  qed
  have m: "multipliers (CHR ''d'') = Some 86400" "multipliers (CHR ''h'') = Some 3600"
    "multipliers (CHR ''m'') = Some 60" "multipliers (CHR ''s'') = Some 1"
    by (simp_all add: multipliers_def)
  from False step[OF m(1)] step[OF m(2)] step[OF m(3)] step[OF m(4)] show ?thesis
    by (simp add: formatRetentionPeriod_def)
qed

lemma format_86401: "formatRetentionPeriod 86401 = ''86401s''"
  by (simp add: formatRetentionPeriod_def numToString_safe digits.simps digitChar_nth)

lemma format_1e21: "formatRetentionPeriod 1000000000000000000000 = ''1e+21s''"
  by (simp add: formatRetentionPeriod_def numToString_1e21)

lemma parse_1e21s: "isl (parseRetentionPeriod ''1e+21s'')"
  by (simp add: parseRetentionPeriod_def trim_def toLowerCase_def isWhiteSpace_def
      lowerChar_def matchRetention_def isDigit_def)

lemma format_2p64: "formatRetentionPeriod 18446744073709551616 = ''18446744073709552000s''"
  by (simp add: formatRetentionPeriod_def numToString_def roundDouble_2p64 doubleToString_2p64)

text \<open>
  C2 as stated ("every non-negative integer") fails at \<open>10^21\<close>, a number that is a double:
  \<open>String(1e21)\<close> is \<open>1e+21\<close>, so \<open>formatRetentionPeriod(1e21)\<close> is "1e+21s", which the
  pattern of \<open>parseRetentionPeriod\<close> does not match, and the call raises.
\<close>

theorem formatRetentionPeriod_1e21_counterexample:
  "roundNum 1000000000000000000000 = 1000000000000000000000
   \<and> formatRetentionPeriod 1000000000000000000000 = ''1e+21s''
   \<and> isl (parseRetentionPeriod (formatRetentionPeriod 1000000000000000000000))
   \<and> parseRetentionPeriod (formatRetentionPeriod 1000000000000000000000)
       \<noteq> Inr (Some 1000000000000000000000)"
proof -
  have "isl (parseRetentionPeriod (formatRetentionPeriod 1000000000000000000000))"
    by (simp only: format_1e21 parse_1e21s)
  moreover from this
  have "parseRetentionPeriod (formatRetentionPeriod 1000000000000000000000)
       \<noteq> Inr (Some 1000000000000000000000)" by auto
  ultimately show ?thesis using roundNum_1e21 format_1e21 by (intro conjI)
qed

text \<open>
  C2, amended. For \<open>n\<close> in \<open>{0, 1, 30, 365}\<close> and each unit, \<open>parseRetentionPeriod(n + unit)\<close>
  is \<open>n\<close> times the unit's seconds (d 86400, h 3600, m 60, s 1); "infinite" and "INFINITE"
  parse to 0; for \<open>seconds\<close> in \<open>{0, 60, 3600, 86400, 2592000}\<close>, for every non-negative
  integer \<open>seconds\<close> below \<open>2^53\<close>, and for every non-negative integer \<open>seconds\<close> below
  \<open>10^21\<close> that is a number of the language (a double: \<open>roundNum seconds = seconds\<close>),
  formatting \<open>seconds\<close> and parsing the result gives \<open>seconds\<close> back; 0 formats to
  "infinite", not "0s", and 86401 to "86401s".
\<close>

theorem parseRetentionPeriod_formatRetentionPeriod:
  "(\<forall>n \<in> {0, 1, 30, 365}.
      \<forall>(u, k) \<in> {(CHR ''d'', 86400), (CHR ''h'', 3600), (CHR ''m'', 60), (CHR ''s'', 1)}.
        parseRetentionPeriod (numToString n @ [u]) = Inr (Some (n * k)))
   \<and> parseRetentionPeriod ''infinite'' = Inr (Some 0)
   \<and> parseRetentionPeriod ''INFINITE'' = Inr (Some 0)
   \<and> (\<forall>s \<in> {0, 60, 3600, 86400, 2592000}.
        parseRetentionPeriod (formatRetentionPeriod s) = Inr (Some s))
   \<and> (0 \<le> seconds \<and> seconds < 9007199254740992
        \<longrightarrow> parseRetentionPeriod (formatRetentionPeriod seconds) = Inr (Some seconds))
   \<and> (0 \<le> seconds \<and> seconds < 1000000000000000000000 \<and> roundNum seconds = seconds
        \<longrightarrow> parseRetentionPeriod (formatRetentionPeriod seconds) = Inr (Some seconds))
   \<and> formatRetentionPeriod 0 = ''infinite''
   \<and> formatRetentionPeriod 0 \<noteq> ''0s''
   \<and> formatRetentionPeriod 86401 = ''86401s''"
proof -
  have a: "\<forall>n \<in> {0, 1, 30, 365}.
      \<forall>(u, k) \<in> {(CHR ''d'', 86400), (CHR ''h'', 3600), (CHR ''m'', 60), (CHR ''s'', 1)}.
        parseRetentionPeriod (numToString n @ [u]) = Inr (Some (n * k))"
  proof (intro ballI, clarify)
    fix n :: int and u :: char and k :: int
    assume n: "n \<in> {0, 1, 30, 365}"
      and uk: "(u, k) \<in> {(CHR ''d'', 86400), (CHR ''h'', 3600), (CHR ''m'', 60), (CHR ''s'', 1)}"
    from n have "0 \<le> n" by auto
    moreover note uk
    moreover from n uk have "n * k < 9007199254740992" by auto
    ultimately show "parseRetentionPeriod (numToString n @ [u]) = Inr (Some (n * k))"
      by (rule parse_numToString_unit)
  qed
  have safe: "parseRetentionPeriod (formatRetentionPeriod s) = Inr (Some s)"
    if "0 \<le> s" "s < 9007199254740992" for s
  proof -
    from that have "\<bar>s\<bar> < 9007199254740992" by simp
    then have "roundNum s = s" by (rule roundNum_safe)
    moreover from that(2) have "s < 1000000000000000000000" by simp
    ultimately show ?thesis using that(1) by (simp add: parse_format_roundtrip)
  qed
  have l: "\<forall>s \<in> {0, 60, 3600, 86400, 2592000}.
        parseRetentionPeriod (formatRetentionPeriod s) = Inr (Some s)"
  proof
    fix s :: int
    assume "s \<in> {0, 60, 3600, 86400, 2592000}"
    then have "0 \<le> s" "s < 9007199254740992" by auto
    then show "parseRetentionPeriod (formatRetentionPeriod s) = Inr (Some s)" by (rule safe)
  qed
  have r1: "0 \<le> seconds \<and> seconds < 9007199254740992
        \<longrightarrow> parseRetentionPeriod (formatRetentionPeriod seconds) = Inr (Some seconds)"
    using safe[of seconds] by blast
  have r2: "0 \<le> seconds \<and> seconds < 1000000000000000000000 \<and> roundNum seconds = seconds
        \<longrightarrow> parseRetentionPeriod (formatRetentionPeriod seconds) = Inr (Some seconds)"
    by (simp add: parse_format_roundtrip)
  have b: "formatRetentionPeriod 0 = ''infinite''" by (simp add: formatRetentionPeriod_def)
  have c: "formatRetentionPeriod 0 \<noteq> ''0s''" by (simp add: b)
  from a parse_infinite parse_INFINITE l r1 r2 b c format_86401 show ?thesis
    by (intro conjI)
qed

theorem parseRetentionPeriod_formatRetentionPeriod_witness:
  "parseRetentionPeriod ''30d'' = Inr (Some 2592000)
   \<and> parseRetentionPeriod ''365h'' = Inr (Some 1314000)
   \<and> parseRetentionPeriod ''0s'' = Inr (Some 0)
   \<and> formatRetentionPeriod 2592000 = ''30d''
   \<and> parseRetentionPeriod (formatRetentionPeriod 2592000) = Inr (Some 2592000)
   \<and> formatRetentionPeriod 90 = ''90s''
   \<and> parseRetentionPeriod (formatRetentionPeriod 90) = Inr (Some 90)
   \<and> formatRetentionPeriod 18446744073709551616 = ''18446744073709552000s''
   \<and> parseRetentionPeriod (formatRetentionPeriod 18446744073709551616)
       = Inr (Some 18446744073709551616)"
proof -
  have f: "formatRetentionPeriod 90 = ''90s''" "formatRetentionPeriod 2592000 = ''30d''"
    by (simp_all add: formatRetentionPeriod_def numToString_safe digits.simps digitChar_nth)
  have n: "numToString 30 = ''30''" "numToString 365 = ''365''" "numToString 0 = ''0''"
    by (simp_all add: numToString_safe digits.simps digitChar_nth)
  from parseRetentionPeriod_formatRetentionPeriod [of 90] n
  have a: "parseRetentionPeriod ''30d'' = Inr (Some 2592000)"
    "parseRetentionPeriod ''365h'' = Inr (Some 1314000)"
    "parseRetentionPeriod ''0s'' = Inr (Some 0)"
    "parseRetentionPeriod (formatRetentionPeriod 2592000) = Inr (Some 2592000)"
    "parseRetentionPeriod (formatRetentionPeriod 90) = Inr (Some 90)"
    by simp_all
  from parseRetentionPeriod_formatRetentionPeriod [of 18446744073709551616] roundNum_2p64
  have b: "parseRetentionPeriod (formatRetentionPeriod 18446744073709551616)
       = Inr (Some 18446744073709551616)"
    by simp
  from a f b format_2p64 show ?thesis by (intro conjI)
qed

section \<open>The validators return a result\<close>

lemma validateMeasurementName_result:
  "\<exists>r. validateMeasurementName v = Inr r
     \<and> (if valid r then error r = None else \<exists>e. error r = Some e \<and> e \<noteq> [])"
  by (cases v) (auto simp add: validateMeasurementName_def asString_def ok_def invalid_def)

lemma validateKeyName_result:
  "\<exists>r. validateKeyName v = Inr r
     \<and> (if valid r then error r = None else \<exists>e. error r = Some e \<and> e \<noteq> [])"
  by (cases v) (auto simp add: validateKeyName_def asString_def ok_def invalid_def)

lemma validateBucketName_result:
  "\<exists>r. validateBucketName v = Inr r
     \<and> (if valid r then error r = None else \<exists>e. error r = Some e \<and> e \<noteq> [])"
  by (cases v) (auto simp add: validateBucketName_def asString_def ok_def invalid_def)

lemma validateRetentionPeriod_result:
  "\<exists>r. validateRetentionPeriod v = Inr r
     \<and> (if valid r then error r = None else \<exists>e. error r = Some e \<and> e \<noteq> [])"
  by (cases v) (auto simp add: validateRetentionPeriod_def asString_def ok_def invalid_def)

lemma validateFluxQuery_result:
  "\<exists>r. validateFluxQuery v = Inr r
     \<and> (if valid r then error r = None else \<exists>e. error r = Some e \<and> e \<noteq> [])"
  by (cases v) (auto simp add: validateFluxQuery_def asString_def Let_def ok_def invalid_def)

lemma validateTimestamp_result:
  "\<exists>r. validateTimestamp dp v = Inr r
     \<and> (if valid r then error r = None else \<exists>e. error r = Some e \<and> e \<noteq> [])"
  by (cases v)
    (auto simp add: validateTimestamp_def asString_def asNumber_def getTime_def instanceofDate_def
      Let_def ok_def invalid_def)

lemma validateFieldValue_result:
  "\<exists>r. validateFieldValue v = Inr r
     \<and> (if valid r then error r = None else \<exists>e. error r = Some e \<and> e \<noteq> [])"
  by (cases v) (auto simp add: validateFieldValue_def asNumber_def Let_def ok_def invalid_def)

section \<open>The language of the retention pattern\<close>

lemma matchRetention_snoc:
  "ds \<noteq> [] \<Longrightarrow> list_all isDigit ds \<Longrightarrow> u \<in> set ''dhms'' \<Longrightarrow> matchRetention (ds @ [u]) = Some (ds, u)"
  by (simp add: matchRetention_def)





lemma result_invariant_conv:
  "(if valid r then error r = None else \<exists>e. error r = Some e \<and> e \<noteq> []) \<longleftrightarrow>
     (valid r \<longrightarrow> error r = None) \<and> (\<not> valid r \<longrightarrow> (\<exists>e. error r = Some e \<and> e \<noteq> []))"
  by simp

text \<open>
  C7. The result of every validator, on every input, carries no error when \<open>valid\<close> is
  true, and carries an error that is a non-empty string when \<open>valid\<close> is false.
\<close>

theorem validation_result_invariant:
  "(\<exists>r. validateMeasurementName v = Inr r
       \<and> (valid r \<longrightarrow> error r = None) \<and> (\<not> valid r \<longrightarrow> (\<exists>e. error r = Some e \<and> e \<noteq> [])))
   \<and> (\<exists>r. validateKeyName v = Inr r
       \<and> (valid r \<longrightarrow> error r = None) \<and> (\<not> valid r \<longrightarrow> (\<exists>e. error r = Some e \<and> e \<noteq> [])))
   \<and> (\<exists>r. validateBucketName v = Inr r
       \<and> (valid r \<longrightarrow> error r = None) \<and> (\<not> valid r \<longrightarrow> (\<exists>e. error r = Some e \<and> e \<noteq> [])))
   \<and> (\<exists>r. validateRetentionPeriod v = Inr r
       \<and> (valid r \<longrightarrow> error r = None) \<and> (\<not> valid r \<longrightarrow> (\<exists>e. error r = Some e \<and> e \<noteq> [])))
   \<and> (\<exists>r. validateFluxQuery v = Inr r
       \<and> (valid r \<longrightarrow> error r = None) \<and> (\<not> valid r \<longrightarrow> (\<exists>e. error r = Some e \<and> e \<noteq> [])))
   \<and> (\<exists>r. validateTimestamp dp v = Inr r
       \<and> (valid r \<longrightarrow> error r = None) \<and> (\<not> valid r \<longrightarrow> (\<exists>e. error r = Some e \<and> e \<noteq> [])))
   \<and> (\<exists>r. validateFieldValue v = Inr r
       \<and> (valid r \<longrightarrow> error r = None) \<and> (\<not> valid r \<longrightarrow> (\<exists>e. error r = Some e \<and> e \<noteq> [])))"
proof (intro conjI)
  show "\<exists>r. validateMeasurementName v = Inr r
       \<and> (valid r \<longrightarrow> error r = None) \<and> (\<not> valid r \<longrightarrow> (\<exists>e. error r = Some e \<and> e \<noteq> []))"
    using validateMeasurementName_result[of v] by (simp only: result_invariant_conv)
  show "\<exists>r. validateKeyName v = Inr r
       \<and> (valid r \<longrightarrow> error r = None) \<and> (\<not> valid r \<longrightarrow> (\<exists>e. error r = Some e \<and> e \<noteq> []))"
    using validateKeyName_result[of v] by (simp only: result_invariant_conv)
  show "\<exists>r. validateBucketName v = Inr r
       \<and> (valid r \<longrightarrow> error r = None) \<and> (\<not> valid r \<longrightarrow> (\<exists>e. error r = Some e \<and> e \<noteq> []))"
    using validateBucketName_result[of v] by (simp only: result_invariant_conv)
  show "\<exists>r. validateRetentionPeriod v = Inr r
       \<and> (valid r \<longrightarrow> error r = None) \<and> (\<not> valid r \<longrightarrow> (\<exists>e. error r = Some e \<and> e \<noteq> []))"
    using validateRetentionPeriod_result[of v] by (simp only: result_invariant_conv)
  show "\<exists>r. validateFluxQuery v = Inr r
       \<and> (valid r \<longrightarrow> error r = None) \<and> (\<not> valid r \<longrightarrow> (\<exists>e. error r = Some e \<and> e \<noteq> []))"
    using validateFluxQuery_result[of v] by (simp only: result_invariant_conv)
  show "\<exists>r. validateTimestamp dp v = Inr r
       \<and> (valid r \<longrightarrow> error r = None) \<and> (\<not> valid r \<longrightarrow> (\<exists>e. error r = Some e \<and> e \<noteq> []))"
    using validateTimestamp_result[of dp v] by (simp only: result_invariant_conv)
  show "\<exists>r. validateFieldValue v = Inr r
       \<and> (valid r \<longrightarrow> error r = None) \<and> (\<not> valid r \<longrightarrow> (\<exists>e. error r = Some e \<and> e \<noteq> []))"
    using validateFieldValue_result[of v] by (simp only: result_invariant_conv)
qed

lemma validateMeasurementName_cpu_usage:
  "validateMeasurementName (JStr ''cpu usage'') = Inr r \<Longrightarrow> \<not> valid r"
  by (auto simp add: validateMeasurementName_def asString_def MEASUREMENT_NAME_REGEX_def
      isNameChar_def invalid_def)

lemma validateKeyName_key_at_value:
  "validateKeyName (JStr ''key@value'') = Inr r \<Longrightarrow> \<not> valid r"
  by (auto simp add: validateKeyName_def asString_def KEY_NAME_REGEX_def startsWith_def
      isNameChar_def invalid_def)

lemma validateBucketName_my_bucket:
  "validateBucketName (JStr ''my.bucket'') = Inr r \<Longrightarrow> \<not> valid r"
  by (auto simp add: validateBucketName_def asString_def BUCKET_NAME_REGEX_def
      isNameChar_def invalid_def)

lemma validateMeasurementName_cpu_usage_ok:
  "validateMeasurementName (JStr ''cpu_usage'') = Inr r \<Longrightarrow> valid r"
  by (auto simp add: validateMeasurementName_def asString_def MEASUREMENT_NAME_REGEX_def
      isNameChar_def ok_def)

theorem validation_result_invariant_witness:
  "(\<exists>r e. validateMeasurementName (JStr ''cpu usage'') = Inr r \<and> \<not> valid r
        \<and> error r = Some e \<and> e \<noteq> [])
   \<and> (\<exists>r e. validateKeyName (JStr ''key@value'') = Inr r \<and> \<not> valid r
        \<and> error r = Some e \<and> e \<noteq> [])
   \<and> (\<exists>r e. validateBucketName (JStr ''my.bucket'') = Inr r \<and> \<not> valid r
        \<and> error r = Some e \<and> e \<noteq> [])
   \<and> (\<exists>r. validateMeasurementName (JStr ''cpu_usage'') = Inr r \<and> valid r \<and> error r = None)"
proof (intro conjI)
  from validation_result_invariant [of "JStr ''cpu usage''" Map.empty]
  obtain r where "validateMeasurementName (JStr ''cpu usage'') = Inr r"
    "\<not> valid r \<longrightarrow> (\<exists>e. error r = Some e \<and> e \<noteq> [])" by blast
  with validateMeasurementName_cpu_usage[of r]
  show "\<exists>r e. validateMeasurementName (JStr ''cpu usage'') = Inr r \<and> \<not> valid r
        \<and> error r = Some e \<and> e \<noteq> []" by blast
  from validation_result_invariant [of "JStr ''key@value''" Map.empty]
  obtain r where "validateKeyName (JStr ''key@value'') = Inr r"
    "\<not> valid r \<longrightarrow> (\<exists>e. error r = Some e \<and> e \<noteq> [])" by blast
  with validateKeyName_key_at_value[of r]
  show "\<exists>r e. validateKeyName (JStr ''key@value'') = Inr r \<and> \<not> valid r
        \<and> error r = Some e \<and> e \<noteq> []" by blast
  from validation_result_invariant [of "JStr ''my.bucket''" Map.empty]
  obtain r where "validateBucketName (JStr ''my.bucket'') = Inr r"
    "\<not> valid r \<longrightarrow> (\<exists>e. error r = Some e \<and> e \<noteq> [])" by blast
  with validateBucketName_my_bucket[of r]
  show "\<exists>r e. validateBucketName (JStr ''my.bucket'') = Inr r \<and> \<not> valid r
        \<and> error r = Some e \<and> e \<noteq> []" by blast
  from validation_result_invariant [of "JStr ''cpu_usage''" Map.empty]
  obtain r where "validateMeasurementName (JStr ''cpu_usage'') = Inr r"
    "valid r \<longrightarrow> error r = None" by blast
  with validateMeasurementName_cpu_usage_ok[of r]
  show "\<exists>r. validateMeasurementName (JStr ''cpu_usage'') = Inr r \<and> valid r \<and> error r = None"
    by blast
qed

section \<open>Names and keys\<close>

text \<open>
  C4. A string of one or more characters of \<open>[A-Za-z0-9_-]\<close> that starts with an
  underscore is rejected by \<open>validateKeyName\<close>, with the reserved-prefix error, and
  accepted by \<open>validateMeasurementName\<close> (and by \<open>validateBucketName\<close> up to 255
  characters): the restriction is on key names only. "_foo" is such a string.
\<close>

theorem underscore_prefix_key_only:
  assumes "s \<noteq> []" "list_all isNameChar s" "hd s = CHR ''_''"
  shows "validateKeyName (JStr s) =
           Inr \<lparr>valid = False,
                error = Some (''Key '' @ [dquote] @ s @ [dquote]
                         @ '' cannot start with underscore (reserved for system use)'')\<rparr>
         \<and> validateMeasurementName (JStr s) = Inr \<lparr>valid = True, error = None\<rparr>
         \<and> (length s \<le> 255 \<longrightarrow> validateBucketName (JStr s) = Inr \<lparr>valid = True, error = None\<rparr>)"
proof -
  from assms(1,3) have sw: "startsWith s (CHR ''_'')" by (cases s) (simp_all add: startsWith_def)
  from assms(1) sw have k: "validateKeyName (JStr s) =
           Inr \<lparr>valid = False,
                error = Some (''Key '' @ [dquote] @ s @ [dquote]
                         @ '' cannot start with underscore (reserved for system use)'')\<rparr>"
    by (simp add: validateKeyName_def asString_def invalid_def quoted_def)
  from assms(1,2) have m: "validateMeasurementName (JStr s) = Inr \<lparr>valid = True, error = None\<rparr>"
    by (simp add: validateMeasurementName_def asString_def MEASUREMENT_NAME_REGEX_def ok_def)
  from assms(1,2) have b: "length s \<le> 255 \<longrightarrow>
      validateBucketName (JStr s) = Inr \<lparr>valid = True, error = None\<rparr>"
    by (simp add: validateBucketName_def asString_def BUCKET_NAME_REGEX_def ok_def)
  from k m b show ?thesis by (intro conjI)
qed

theorem underscore_prefix_key_only_witness:
  "validateKeyName (JStr ''_foo'') =
     Inr \<lparr>valid = False,
          error = Some (''Key '' @ [dquote] @ ''_foo'' @ [dquote]
                   @ '' cannot start with underscore (reserved for system use)'')\<rparr>
   \<and> validateMeasurementName (JStr ''_foo'') = Inr \<lparr>valid = True, error = None\<rparr>
   \<and> validateBucketName (JStr ''_foo'') = Inr \<lparr>valid = True, error = None\<rparr>"
proof -
  have h: "''_foo'' \<noteq> []" "list_all isNameChar ''_foo''" "hd ''_foo'' = CHR ''_''"
    by (simp_all add: isNameChar_def)
  from underscore_prefix_key_only [OF h] show ?thesis by simp
qed

section \<open>Flux queries\<close>

lemma count_list_dropWhile: "\<not> P c \<Longrightarrow> count_list (dropWhile P s) c = count_list s c"
  by (induction s) auto

lemma count_list_trim: "\<not> isWhiteSpace c \<Longrightarrow> count_list (trim s) c = count_list s c"
  by (simp add: trim_def count_list_dropWhile)

lemma trim_Nil_iff: "trim s = [] \<longleftrightarrow> list_all isWhiteSpace s"
proof
  assume "trim s = []"
  then have a: "\<forall>x \<in> set (dropWhile isWhiteSpace s). isWhiteSpace x"
    by (simp add: trim_def dropWhile_eq_Nil_conv)
  have "dropWhile isWhiteSpace s = []"
  proof (rule ccontr)
    assume ne: "dropWhile isWhiteSpace s \<noteq> []"
    then have "\<not> isWhiteSpace (hd (dropWhile isWhiteSpace s))" by (rule hd_dropWhile)
    moreover from ne have "hd (dropWhile isWhiteSpace s) \<in> set (dropWhile isWhiteSpace s)"
      by simp
    ultimately show False using a by blast
  qed
  then show "list_all isWhiteSpace s" by (simp add: dropWhile_eq_Nil_conv list_all_iff)
next
  assume "list_all isWhiteSpace s"
  then have d: "dropWhile isWhiteSpace s = []" by (simp add: list_all_iff)
  show "trim s = []" unfolding trim_def d by simp
qed

lemma bracket_not_ws:
  "\<not> isWhiteSpace (CHR ''('')" "\<not> isWhiteSpace (CHR '')'')"
  "\<not> isWhiteSpace (CHR ''['')" "\<not> isWhiteSpace (CHR '']'')"
  by (simp_all add: isWhiteSpace_def)

lemma validateFluxQuery_string:
  "validateFluxQuery (JStr q) =
     (if list_all isWhiteSpace q then
        (if q = [] then Inr (invalid ''Flux query is required and must be a string'')
         else Inr (invalid ''Flux query cannot be empty''))
      else if count_list q (CHR ''('') \<noteq> count_list q (CHR '')'')
        then Inr (invalid ''Unbalanced parentheses in Flux query'')
      else if count_list q (CHR ''['') \<noteq> count_list q (CHR '']'')
        then Inr (invalid ''Unbalanced brackets in Flux query'')
      else Inr ok)"
proof (cases "q = []")
  case True
  then show ?thesis by (simp add: validateFluxQuery_def)
next
  case False
  then show ?thesis
    by (simp add: validateFluxQuery_def asString_def Let_def trim_Nil_iff count_list_trim
        bracket_not_ws)
qed

text \<open>
  C8. For a string, \<open>validateFluxQuery\<close> fails exactly when the string is empty or all
  white space, or has different numbers of \<open>(\<close> and \<open>)\<close>, or of \<open>[\<close> and \<open>]\<close>. The
  unbalanced \<open>from(bucket: "x"\<close> fails with "Unbalanced parentheses in Flux query", three
  spaces fail with "Flux query cannot be empty".
\<close>

theorem validateFluxQuery_fails_iff:
  "(\<exists>r. validateFluxQuery (JStr q) = Inr r
       \<and> (\<not> valid r \<longleftrightarrow>
            (list_all isWhiteSpace q
             \<or> count_list q (CHR ''('') \<noteq> count_list q (CHR '')'')
             \<or> count_list q (CHR ''['') \<noteq> count_list q (CHR '']''))))
   \<and> validateFluxQuery (JStr (''from(bucket: '' @ [dquote] @ ''x'' @ [dquote])) =
       Inr \<lparr>valid = False, error = Some ''Unbalanced parentheses in Flux query''\<rparr>
   \<and> validateFluxQuery (JStr ''   '') =
       Inr \<lparr>valid = False, error = Some ''Flux query cannot be empty''\<rparr>"
proof (intro conjI)
  show "\<exists>r. validateFluxQuery (JStr q) = Inr r
       \<and> (\<not> valid r \<longleftrightarrow>
            (list_all isWhiteSpace q
             \<or> count_list q (CHR ''('') \<noteq> count_list q (CHR '')'')
             \<or> count_list q (CHR ''['') \<noteq> count_list q (CHR '']'')))"
    by (simp add: validateFluxQuery_string invalid_def ok_def)
  show "validateFluxQuery (JStr (''from(bucket: '' @ [dquote] @ ''x'' @ [dquote])) =
       Inr \<lparr>valid = False, error = Some ''Unbalanced parentheses in Flux query''\<rparr>"
    by (simp add: validateFluxQuery_string invalid_def isWhiteSpace_def dquote_def)
  show "validateFluxQuery (JStr ''   '') =
       Inr \<lparr>valid = False, error = Some ''Flux query cannot be empty''\<rparr>"
    by (simp add: validateFluxQuery_string invalid_def isWhiteSpace_def)
qed

theorem validateFluxQuery_fails_iff_witness:
  "(\<exists>r. validateFluxQuery (JStr ''from(bucket: x) |> filter(fn: (r) => r.tags[0])'') = Inr r
       \<and> valid r)
   \<and> (\<exists>r. validateFluxQuery (JStr ''filter(fn: (r) => r.tags[[location])'') = Inr r
       \<and> \<not> valid r)"
proof -
  have a: "\<not> list_all isWhiteSpace ''from(bucket: x) |> filter(fn: (r) => r.tags[0])''"
    by (simp add: isWhiteSpace_def)
  have b: "count_list ''from(bucket: x) |> filter(fn: (r) => r.tags[0])'' (CHR ''('') =
           count_list ''from(bucket: x) |> filter(fn: (r) => r.tags[0])'' (CHR '')'')"
    by simp
  have c: "count_list ''from(bucket: x) |> filter(fn: (r) => r.tags[0])'' (CHR ''['') =
           count_list ''from(bucket: x) |> filter(fn: (r) => r.tags[0])'' (CHR '']'')"
    by simp
  have d: "count_list ''filter(fn: (r) => r.tags[[location])'' (CHR ''['') \<noteq>
           count_list ''filter(fn: (r) => r.tags[[location])'' (CHR '']'')"
    by simp
  from validateFluxQuery_fails_iff [of "''from(bucket: x) |> filter(fn: (r) => r.tags[0])''"]
    a b c
  have 1: "\<exists>r. validateFluxQuery (JStr ''from(bucket: x) |> filter(fn: (r) => r.tags[0])'') = Inr r
       \<and> valid r" by blast
  from validateFluxQuery_fails_iff [of "''filter(fn: (r) => r.tags[[location])''"] d
  have 2: "\<exists>r. validateFluxQuery (JStr ''filter(fn: (r) => r.tags[[location])'') = Inr r
       \<and> \<not> valid r" by blast
  from 1 2 show ?thesis by (intro conjI)
qed

section \<open>Field values\<close>

text \<open>
  C9. \<open>validateFieldValue\<close> accepts exactly the strings, the booleans and the finite
  numbers: the empty string and both booleans are valid; NaN and the two infinities are
  not; \<open>null\<close>, \<open>undefined\<close>, objects and arrays are not.
\<close>

theorem validateFieldValue_accepts_iff:
  "(\<exists>r. validateFieldValue v = Inr r
       \<and> (valid r \<longleftrightarrow> ((\<exists>s. v = JStr s) \<or> (\<exists>b. v = JBool b) \<or> (\<exists>x. v = JNum (Finite x)))))
   \<and> validateFieldValue (JStr []) = Inr \<lparr>valid = True, error = None\<rparr>
   \<and> validateFieldValue (JBool True) = Inr \<lparr>valid = True, error = None\<rparr>
   \<and> validateFieldValue (JBool False) = Inr \<lparr>valid = True, error = None\<rparr>
   \<and> validateFieldValue (JNum NaN) =
       Inr \<lparr>valid = False, error = Some ''Numeric field values must be finite''\<rparr>
   \<and> validateFieldValue (JNum PosInfinity) =
       Inr \<lparr>valid = False, error = Some ''Numeric field values must be finite''\<rparr>
   \<and> validateFieldValue (JNum NegInfinity) =
       Inr \<lparr>valid = False, error = Some ''Numeric field values must be finite''\<rparr>
   \<and> validateFieldValue JNull =
       Inr \<lparr>valid = False, error = Some (''Invalid field value type '' @ [dquote] @ ''object''
              @ [dquote] @ ''. Must be string, number, or boolean.'')\<rparr>
   \<and> validateFieldValue JUndefined =
       Inr \<lparr>valid = False, error = Some (''Invalid field value type '' @ [dquote] @ ''undefined''
              @ [dquote] @ ''. Must be string, number, or boolean.'')\<rparr>
   \<and> validateFieldValue JObject =
       Inr \<lparr>valid = False, error = Some (''Invalid field value type '' @ [dquote] @ ''object''
              @ [dquote] @ ''. Must be string, number, or boolean.'')\<rparr>
   \<and> validateFieldValue JArray =
       Inr \<lparr>valid = False, error = Some (''Invalid field value type '' @ [dquote] @ ''object''
              @ [dquote] @ ''. Must be string, number, or boolean.'')\<rparr>"
proof (intro conjI)
  show "\<exists>r. validateFieldValue v = Inr r
       \<and> (valid r \<longleftrightarrow> ((\<exists>s. v = JStr s) \<or> (\<exists>b. v = JBool b) \<or> (\<exists>x. v = JNum (Finite x))))"
  proof (cases v)
    case (JNum x)
    then show ?thesis
      by (cases x) (simp_all add: validateFieldValue_def asNumber_def ok_def invalid_def)
  qed (simp_all add: validateFieldValue_def asNumber_def ok_def invalid_def)
qed (simp_all add: validateFieldValue_def asNumber_def ok_def invalid_def quoted_def)

theorem validateFieldValue_accepts_iff_witness:
  "(\<exists>r. validateFieldValue (JNum (Finite 42)) = Inr r \<and> valid r)
   \<and> (\<exists>r. validateFieldValue (JStr ''x'') = Inr r \<and> valid r)
   \<and> (\<exists>r. validateFieldValue (JDate (Some 0)) = Inr r \<and> \<not> valid r)"
proof -
  from validateFieldValue_accepts_iff [of "JNum (Finite 42)"]
  have 1: "\<exists>r. validateFieldValue (JNum (Finite 42)) = Inr r \<and> valid r" by blast
  from validateFieldValue_accepts_iff [of "JStr ''x''"]
  have 2: "\<exists>r. validateFieldValue (JStr ''x'') = Inr r \<and> valid r" by blast
  from validateFieldValue_accepts_iff [of "JDate (Some 0)"]
  have 3: "\<exists>r. validateFieldValue (JDate (Some 0)) = Inr r \<and> \<not> valid r" by auto
  from 1 2 3 show ?thesis by (intro conjI)
qed

section \<open>What validateRetentionPeriod accepts, parseRetentionPeriod parses\<close>

lemma upper_of_letter:
  "char_of (68::nat) = CHR ''D''"
  "char_of (72::nat) = CHR ''H''"
  "char_of (77::nat) = CHR ''M''"
  "char_of (83::nat) = CHR ''S''"
  "char_of (73::nat) = CHR ''I''"
  "char_of (78::nat) = CHR ''N''"
  "char_of (70::nat) = CHR ''F''"
  "char_of (84::nat) = CHR ''T''"
  "char_of (69::nat) = CHR ''E''"
  by (simp_all add: char_of_def bit_iff_odd)

lemma lowerChar_letter:
  "lowerChar (CHR ''D'') = CHR ''d''" "lowerChar (CHR ''d'') = CHR ''d''"
  "lowerChar (CHR ''H'') = CHR ''h''" "lowerChar (CHR ''h'') = CHR ''h''"
  "lowerChar (CHR ''M'') = CHR ''m''" "lowerChar (CHR ''m'') = CHR ''m''"
  "lowerChar (CHR ''S'') = CHR ''s''" "lowerChar (CHR ''s'') = CHR ''s''"
  "lowerChar (CHR ''I'') = CHR ''i''" "lowerChar (CHR ''i'') = CHR ''i''"
  "lowerChar (CHR ''N'') = CHR ''n''" "lowerChar (CHR ''n'') = CHR ''n''"
  "lowerChar (CHR ''F'') = CHR ''f''" "lowerChar (CHR ''f'') = CHR ''f''"
  "lowerChar (CHR ''T'') = CHR ''t''" "lowerChar (CHR ''t'') = CHR ''t''"
  "lowerChar (CHR ''E'') = CHR ''e''" "lowerChar (CHR ''e'') = CHR ''e''"
  by (simp_all add: lowerChar_def char_of_def bit_iff_odd)

lemma ciMatch_cases:
  assumes "ciMatch p c" "p \<in> set ''dhmsinfte''"
  shows "c \<in> set ''dDhHmMsSiInNfFtTeE''"
  using assms unfolding ciMatch_def by (auto simp add: upper_of_letter)

lemma ciMatch_letter:
  assumes "ciMatch p c" "p \<in> set ''dhmsinfte''"
  shows "lowerChar c = p" "\<not> isWhiteSpace c"
proof -
  from assms show "lowerChar c = p"
    unfolding ciMatch_def by (auto simp add: upper_of_letter lowerChar_letter)
  from ciMatch_cases[OF assms] show "\<not> isWhiteSpace c"
    by (auto simp add: isWhiteSpace_def)
qed

lemma list_all2_ciMatch_lower:
  "list_all2 ciMatch p s \<Longrightarrow> set p \<subseteq> set ''dhmsinfte'' \<Longrightarrow>
     map lowerChar s = p \<and> list_all (\<lambda>c. \<not> isWhiteSpace c) s"
proof (induction rule: list_all2_induct)
  case Nil
  then show ?case by simp
next
  case (Cons x xs y ys)
  then show ?case using ciMatch_letter[of x y] by simp
qed

lemma parse_digits_snoc:
  assumes ds: "ds \<noteq> []" "list_all isDigit ds" and c: "ciMatch u c" and u: "u \<in> set ''dhms''"
  shows "\<exists>n. 0 \<le> n \<and> parseRetentionPeriod (ds @ [c]) = Inr (Some n)"
proof -
  let ?s = "ds @ [c]"
  from u have u': "u \<in> set ''dhmsinfte''" by auto
  have hd: "hd ?s = hd ds" using ds(1) by simp
  have hdd: "isDigit (hd ds)" using ds by (cases ds) simp_all
  have t: "trim ?s = ?s"
    by (rule trim_id) (simp_all add: hd hdd isDigit_not_ws ciMatch_letter(2)[OF c u'])
  have l: "toLowerCase ?s = ds @ [u]"
    by (simp add: toLowerCase_def digits_lower ds ciMatch_letter(1)[OF c u'])
  have m: "matchRetention (ds @ [u]) = Some (ds, u)" using ds u by (rule matchRetention_snoc)
  have ni: "ds @ [u] \<noteq> ''infinite''"
  proof
    assume "ds @ [u] = ''infinite''"
    then have "hd (ds @ [u]) = CHR ''i''" by simp
    with ds(1) hdd have "isDigit (CHR ''i'')" by simp
    then show False by (simp add: isDigit_def)
  qed
  have p: "0 \<le> parseInt10 ds" by (simp add: parseInt10_def roundNum_nonneg)
  from u have "\<exists>k. 0 \<le> k \<and> multipliers u = Some k" by (auto simp add: multipliers_def)
  then obtain k where k: "0 \<le> k" "multipliers u = Some k" by blast
  have "parseRetentionPeriod ?s = Inr (Some (mulNum (parseInt10 ds) k))"
    by (simp add: parseRetentionPeriod_def t l m k ni Let_def)
  moreover from p k(1) have "0 \<le> mulNum (parseInt10 ds) k"
    by (simp add: mulNum_def roundNum_nonneg)
  ultimately show ?thesis by blast
qed

lemma parse_infinite_ci:
  assumes "list_all2 ciMatch ''infinite'' s"
  shows "parseRetentionPeriod s = Inr (Some 0)"
proof -
  from list_all2_ciMatch_lower[OF assms] have l: "map lowerChar s = ''infinite''"
    and w: "list_all (\<lambda>c. \<not> isWhiteSpace c) s" by auto
  from l have ne: "s \<noteq> []" by auto
  with w have "\<not> isWhiteSpace (hd s)" "\<not> isWhiteSpace (last s)"
    by (simp_all add: list_all_iff)
  with ne have "trim s = s" by (simp add: trim_id)
  then show ?thesis by (simp add: parseRetentionPeriod_def toLowerCase_def l)
qed

lemma validated_parses:
  assumes "validateRetentionPeriod (JStr s) = Inr r" "valid r"
  shows "\<exists>n. 0 \<le> n \<and> parseRetentionPeriod s = Inr (Some n)"
proof -
  from assms have re: "RETENTION_PERIOD_REGEX s"
    by (auto simp add: validateRetentionPeriod_def asString_def invalid_def split: if_splits)
  then consider
    (unit) u where "s \<noteq> []" "butlast s \<noteq> []" "list_all isDigit (butlast s)"
      "ciMatch u (last s)" "u \<in> set ''dhms''"
    | (inf) "list_all2 ciMatch ''infinite'' s"
    unfolding RETENTION_PERIOD_REGEX_def by auto
  then show ?thesis
  proof cases
    case unit
    from unit(1) have "s = butlast s @ [last s]" by simp
    with parse_digits_snoc[OF unit(2,3,4,5)] show ?thesis by simp
  next
    case inf
    then show ?thesis by (simp add: parse_infinite_ci)
  qed
qed

lemma regex_30D: "RETENTION_PERIOD_REGEX ''30D''"
  by (simp add: RETENTION_PERIOD_REGEX_def isDigit_def ciMatch_def upper_of_letter)

lemma regex_INFINITE: "RETENTION_PERIOD_REGEX ''INFINITE''"
  by (simp add: RETENTION_PERIOD_REGEX_def ciMatch_def upper_of_letter)

lemma regex_365d: "RETENTION_PERIOD_REGEX ''365d''"
  by (simp add: RETENTION_PERIOD_REGEX_def isDigit_def ciMatch_def)

lemma regex_padded: "\<not> RETENTION_PERIOD_REGEX '' 30d ''"
  by (simp add: RETENTION_PERIOD_REGEX_def isDigit_def ciMatch_def upper_of_letter)

lemma parse_30D: "parseRetentionPeriod ''30D'' = Inr (Some 2592000)"
  by (simp add: parseRetentionPeriod_def trim_def toLowerCase_def isWhiteSpace_def
      lowerChar_def char_of_def bit_iff_odd matchRetention_def isDigit_def multipliers_def
      parseInt10_def digitVal_def mulNum_def roundNum_def roundDouble_def)

lemma parse_padded: "parseRetentionPeriod '' 30d '' = Inr (Some 2592000)"
  by (simp add: parseRetentionPeriod_def trim_def toLowerCase_def isWhiteSpace_def
      lowerChar_def matchRetention_def isDigit_def multipliers_def
      parseInt10_def digitVal_def mulNum_def roundNum_def roundDouble_def)

text \<open>
  C10. Every string that \<open>validateRetentionPeriod\<close> accepts is parsed by
  \<open>parseRetentionPeriod\<close> to a number, without raising; the validator's pattern ignores
  case, so "30D" and "INFINITE" pass and parse. The parser accepts more: " 30d ", with a
  space on each side, parses to 2592000 and is rejected by the validator.
\<close>

theorem validated_retention_period_parses:
  "(validateRetentionPeriod (JStr s) = Inr r \<and> valid r
      \<longrightarrow> (\<exists>n. 0 \<le> n \<and> parseRetentionPeriod s = Inr (Some n)))
   \<and> validateRetentionPeriod (JStr ''30D'') = Inr \<lparr>valid = True, error = None\<rparr>
   \<and> parseRetentionPeriod ''30D'' = Inr (Some 2592000)
   \<and> validateRetentionPeriod (JStr ''INFINITE'') = Inr \<lparr>valid = True, error = None\<rparr>
   \<and> parseRetentionPeriod ''INFINITE'' = Inr (Some 0)
   \<and> (\<exists>e. validateRetentionPeriod (JStr '' 30d '') = Inr \<lparr>valid = False, error = Some e\<rparr>)
   \<and> parseRetentionPeriod '' 30d '' = Inr (Some 2592000)"
proof (intro conjI)
  show "validateRetentionPeriod (JStr s) = Inr r \<and> valid r
      \<longrightarrow> (\<exists>n. 0 \<le> n \<and> parseRetentionPeriod s = Inr (Some n))"
    using validated_parses[of s r] by blast
  show "validateRetentionPeriod (JStr ''30D'') = Inr \<lparr>valid = True, error = None\<rparr>"
    by (simp add: validateRetentionPeriod_def asString_def regex_30D ok_def)
  show "parseRetentionPeriod ''30D'' = Inr (Some 2592000)" by (rule parse_30D)
  show "validateRetentionPeriod (JStr ''INFINITE'') = Inr \<lparr>valid = True, error = None\<rparr>"
    by (simp add: validateRetentionPeriod_def asString_def regex_INFINITE ok_def)
  show "parseRetentionPeriod ''INFINITE'' = Inr (Some 0)" by (rule parse_INFINITE)
  show "\<exists>e. validateRetentionPeriod (JStr '' 30d '') = Inr \<lparr>valid = False, error = Some e\<rparr>"
    by (simp add: validateRetentionPeriod_def asString_def regex_padded invalid_def)
  show "parseRetentionPeriod '' 30d '' = Inr (Some 2592000)" by (rule parse_padded)
qed

theorem validated_retention_period_parses_witness:
  "validateRetentionPeriod (JStr ''365d'') = Inr \<lparr>valid = True, error = None\<rparr>
   \<and> (\<exists>n. 0 \<le> n \<and> parseRetentionPeriod ''365d'' = Inr (Some n))"
proof -
  have v: "validateRetentionPeriod (JStr ''365d'') = Inr \<lparr>valid = True, error = None\<rparr>"
    by (simp add: validateRetentionPeriod_def asString_def regex_365d ok_def)
  from validated_retention_period_parses [of "''365d''" "\<lparr>valid = True, error = None\<rparr>"] v
  show ?thesis by simp
qed

section \<open>Result rows\<close>

lemma map_of_putProp: "map_of (putProp k v obj) k' = (if k' = k then Some v else map_of obj k')"
  by (induction obj) auto

lemma map_of_setProp:
  "map_of (setProp k v obj) k' =
     (if k = ''__proto__'' then map_of obj k' else if k' = k then Some v else map_of obj k')"
  by (simp add: setProp_def map_of_putProp)

lemma formatRow_keeps_time:
  "formatRow h fmt entries acc = Inr res \<Longrightarrow> ''_time'' \<notin> fst ` set entries \<Longrightarrow>
     map_of res ''_time'' = map_of acc ''_time''"
proof (induction entries arbitrary: acc)
  case Nil
  then show ?case by simp
next
  case (Cons e entries)
  obtain key v where e: "e = (key, v)" by (cases e)
  from Cons.prems(2) e have k: "key \<noteq> ''_time''" and rest: "''_time'' \<notin> fst ` set entries"
    by auto
  from Cons.prems(1) e k
  have "formatRow h fmt entries (setProp key v acc) = Inr res \<or> formatRow h fmt entries acc = Inr res"
    by (auto split: if_splits)
  then show ?case
  proof
    assume "formatRow h fmt entries (setProp key v acc) = Inr res"
    from Cons.IH[OF this rest] k show ?thesis by (simp add: map_of_setProp)
  next
    assume "formatRow h fmt entries acc = Inr res"
    from Cons.IH[OF this rest] show ?thesis .
  qed
qed

lemma formatRow_time:
  assumes "formatRow h fmt entries acc = Inr res" "distinct (map fst entries)"
    "map_of entries ''_time'' = Some v" "truthy v"
  shows "\<exists>formatted. formatTimestamp h v fmt = Inr formatted
           \<and> map_of res ''_time'' =
               Some (case formatted of JNum x \<Rightarrow> newDate x | _ \<Rightarrow> formatted)"
  using assms
proof (induction entries arbitrary: acc)
  case Nil
  then show ?case by simp
next
  case (Cons e entries)
  obtain key w where e: "e = (key, w)" by (cases e)
  show ?case
  proof (cases "key = ''_time''")
    case True
    with Cons.prems(3) e have w: "w = v" by simp
    from Cons.prems(2) e True have rest: "''_time'' \<notin> fst ` set entries" by auto
    from Cons.prems(1,4) e True w obtain formatted where
      f: "formatTimestamp h v fmt = Inr formatted"
      and r: "formatRow h fmt entries
                (setProp ''_time'' (case formatted of JNum x \<Rightarrow> newDate x | _ \<Rightarrow> formatted) acc) = Inr res"
      by (auto split: sum.splits)
    from formatRow_keeps_time[OF r rest] f show ?thesis by (simp add: map_of_setProp)
  next
    case False
    with Cons.prems(3) e have m: "map_of entries ''_time'' = Some v" by simp
    from Cons.prems(2) have d: "distinct (map fst entries)" by simp
    from Cons.prems(1) e False
    have "formatRow h fmt entries (setProp key w acc) = Inr res \<or> formatRow h fmt entries acc = Inr res"
      by (auto split: if_splits)
    then show ?thesis
      using Cons.IH[OF _ d m Cons.prems(4)] by blast
  qed
qed

lemma mapRows_list_all2:
  "mapRows h fmt rows = Inr out \<longleftrightarrow> list_all2 (\<lambda>r m. formatRow h fmt r [] = Inr m) rows out"
proof (induction rows arbitrary: out)
  case Nil
  then show ?case by auto
next
  case (Cons r rows)
  show ?case
  proof (cases "formatRow h fmt r []")
    case (Inl e)
    then show ?thesis by (auto simp add: list_all2_Cons1)
  next
    case (Inr fr)
    then show ?thesis
      using Cons.IH by (cases "mapRows h fmt rows") (auto simp add: list_all2_Cons1)
  qed
qed

lemma mapRows_raises_iff:
  "(\<exists>e. mapRows h fmt rows = Inl e) \<longleftrightarrow> (\<exists>r \<in> set rows. \<exists>e. formatRow h fmt r [] = Inl e)"
proof (induction rows)
  case Nil
  then show ?case by simp
next
  case (Cons r rows)
  then show ?case
    by (cases "formatRow h fmt r []"; cases "mapRows h fmt rows") auto
qed

lemma formatFluxResults_raises_iff:
  "(\<exists>e. formatFluxResults h rows options = Inl e) \<longleftrightarrow>
     (\<exists>r \<in> set rows. \<exists>e. formatRow h (optTimestampFormat options) r [] = Inl e)"
proof -
  have "(\<exists>e. formatFluxResults h rows options = Inl e) \<longleftrightarrow>
          (\<exists>e. mapRows h (optTimestampFormat options) rows = Inl e)"
    by (cases "mapRows h (optTimestampFormat options) rows")
      (simp_all add: formatFluxResults_def Let_def)
  then show ?thesis by (simp only: mapRows_raises_iff)
qed

lemma formatFluxResults_mapped:
  assumes "list_all2 (\<lambda>r m. formatRow h (optTimestampFormat options) r [] = Inr m) rows mapped"
  shows "formatFluxResults h rows options =
           Inr (if 0 < optLimit options then take (nat (optLimit options)) mapped else mapped)"
proof -
  from assms have "mapRows h (optTimestampFormat options) rows = Inr mapped"
    by (simp only: mapRows_list_all2)
  then show ?thesis by (simp add: formatFluxResults_def Let_def slice0_def)
qed

text \<open>
  C5 as stated ("for every row list") fails: the rows are all mapped before the list is
  cut, and mapping a row raises when its \<open>_time\<close> is an Invalid Date (or a truthy value
  that is neither a string nor a Date). Below, the first two rows map to themselves, the
  limit is 2, and the call raises on the third row instead of returning the first two.
\<close>

theorem formatFluxResults_limit_counterexample:
  "\<forall>h. mapRows h Iso [[(''_value'', JNum (Finite 1))], [(''_value'', JNum (Finite 2))]] =
          Inr [[(''_value'', JNum (Finite 1))], [(''_value'', JNum (Finite 2))]]
       \<and> formatFluxResults h
            [[(''_value'', JNum (Finite 1))], [(''_value'', JNum (Finite 2))],
             [(''_time'', JDate None), (''_value'', JNum (Finite 3))]]
            (Some \<lparr>timestampFormat = None, flattenTables = None, limit = Some 2\<rparr>) =
          Inl RangeError
       \<and> formatFluxResults h
            [[(''_value'', JNum (Finite 1))], [(''_value'', JNum (Finite 2))],
             [(''_time'', JNum (Finite 1704067320000)), (''_value'', JNum (Finite 3))]]
            (Some \<lparr>timestampFormat = None, flattenTables = None, limit = Some 2\<rparr>) =
          Inl TypeError"
  by (simp add: formatFluxResults_def optTimestampFormat_def optLimit_def formatTimestamp_def
      toISOString_def setProp_def)

text \<open>
  C5, amended. When mapping raises on no row of \<open>rows\<close> (\<open>mapped\<close> lists the mapped rows, in
  the order of the input): with a limit \<open>n > 0\<close> the result is the first \<open>n\<close> mapped rows,
  \<open>min n (length rows)\<close> of them, in the order of the input; with the options absent, or
  the limit absent, zero or negative, the result is all the mapped rows; and
  \<open>formatFluxResults([], {})\<close> is the empty list.
\<close>

theorem formatFluxResults_limit:
  "(list_all2 (\<lambda>r m. formatRow h (optTimestampFormat options) r [] = Inr m) rows mapped \<longrightarrow>
      (\<forall>opts n. options = Some opts \<and> limit opts = Some n \<and> 0 < n \<longrightarrow>
         formatFluxResults h rows options = Inr (take (nat n) mapped)
         \<and> length (take (nat n) mapped) = min (nat n) (length rows))
      \<and> (options = None
           \<or> (\<exists>opts. options = Some opts
                 \<and> (limit opts = None \<or> (\<exists>n. limit opts = Some n \<and> n \<le> 0))) \<longrightarrow>
          formatFluxResults h rows options = Inr mapped))
   \<and> formatFluxResults h [] (Some \<lparr>timestampFormat = None, flattenTables = None, limit = None\<rparr>)
       = Inr []"
proof (intro conjI impI allI)
  fix opts n
  assume m: "list_all2 (\<lambda>r m. formatRow h (optTimestampFormat options) r [] = Inr m) rows mapped"
    and o: "options = Some opts \<and> limit opts = Some n \<and> 0 < n"
  from o have l: "optLimit options = n" by (simp add: optLimit_def)
  from formatFluxResults_mapped[OF m] l o
  show "formatFluxResults h rows options = Inr (take (nat n) mapped)" by simp
  from m have "length mapped = length rows" by (simp add: list_all2_lengthD)
  then show "length (take (nat n) mapped) = min (nat n) (length rows)" by simp
next
  assume m: "list_all2 (\<lambda>r m. formatRow h (optTimestampFormat options) r [] = Inr m) rows mapped"
    and o: "options = None
           \<or> (\<exists>opts. options = Some opts
                 \<and> (limit opts = None \<or> (\<exists>n. limit opts = Some n \<and> n \<le> 0)))"
  from o have l: "\<not> 0 < optLimit options" by (auto simp add: optLimit_def)
  from formatFluxResults_mapped[OF m] l
  show "formatFluxResults h rows options = Inr mapped" by simp
next
  show "formatFluxResults h [] (Some \<lparr>timestampFormat = None, flattenTables = None, limit = None\<rparr>)
       = Inr []"
    by (simp add: formatFluxResults_def optLimit_def)
qed

theorem formatFluxResults_limit_witness:
  "\<forall>h. formatFluxResults h
          [[(''_time'', JDate (Some 1704067200000)), (''_measurement'', JStr ''temperature''),
            (''_value'', JNum (Finite 23)), (''table'', JNum (Finite 0))],
           [(''_time'', JDate (Some 1704067260000)), (''_measurement'', JStr ''temperature''),
            (''_value'', JNum (Finite 24)), (''table'', JNum (Finite 0))],
           [(''_time'', JDate (Some 1704067320000)), (''_measurement'', JStr ''temperature''),
            (''_value'', JNum (Finite 25)), (''table'', JNum (Finite 0))]]
          (Some \<lparr>timestampFormat = None, flattenTables = None, limit = Some 2\<rparr>) =
        Inr [[(''_time'', JStr (isoText h 1704067200000)), (''_measurement'', JStr ''temperature''),
              (''_value'', JNum (Finite 23))],
             [(''_time'', JStr (isoText h 1704067260000)), (''_measurement'', JStr ''temperature''),
              (''_value'', JNum (Finite 24))]]"
proof
  fix h :: host
  let ?rows = "[[(''_time'', JDate (Some 1704067200000)), (''_measurement'', JStr ''temperature''),
            (''_value'', JNum (Finite 23)), (''table'', JNum (Finite 0))],
           [(''_time'', JDate (Some 1704067260000)), (''_measurement'', JStr ''temperature''),
            (''_value'', JNum (Finite 24)), (''table'', JNum (Finite 0))],
           [(''_time'', JDate (Some 1704067320000)), (''_measurement'', JStr ''temperature''),
            (''_value'', JNum (Finite 25)), (''table'', JNum (Finite 0))]]"
  let ?mapped = "[[(''_time'', JStr (isoText h 1704067200000)), (''_measurement'', JStr ''temperature''),
              (''_value'', JNum (Finite 23))],
             [(''_time'', JStr (isoText h 1704067260000)), (''_measurement'', JStr ''temperature''),
              (''_value'', JNum (Finite 24))],
             [(''_time'', JStr (isoText h 1704067320000)), (''_measurement'', JStr ''temperature''),
              (''_value'', JNum (Finite 25))]]"
  let ?options = "Some \<lparr>timestampFormat = None, flattenTables = None, limit = Some 2\<rparr>"
  have m: "list_all2 (\<lambda>r m. formatRow h (optTimestampFormat ?options) r [] = Inr m) ?rows ?mapped"
    by (simp add: optTimestampFormat_def formatTimestamp_def toISOString_def setProp_def)
  have t: "take (nat 2) ?mapped =
             [[(''_time'', JStr (isoText h 1704067200000)), (''_measurement'', JStr ''temperature''),
              (''_value'', JNum (Finite 23))],
             [(''_time'', JStr (isoText h 1704067260000)), (''_measurement'', JStr ''temperature''),
              (''_value'', JNum (Finite 24))]]"
    by (simp add: numeral_2_eq_2)
  from formatFluxResults_limit [of h ?options ?rows ?mapped] m
  have "formatFluxResults h ?rows ?options = Inr (take (nat 2) ?mapped)" by simp
  then show "formatFluxResults h ?rows ?options =
        Inr [[(''_time'', JStr (isoText h 1704067200000)), (''_measurement'', JStr ''temperature''),
              (''_value'', JNum (Finite 23))],
             [(''_time'', JStr (isoText h 1704067260000)), (''_measurement'', JStr ''temperature''),
              (''_value'', JNum (Finite 24))]]"
    by (simp only: t)
qed

text \<open>
  C6 as stated fails: with \<open>timestampFormat = 'unix'\<close> the number that \<open>formatTimestamp\<close>
  returns is wrapped again (\<open>typeof formatted === 'number' ? new Date(formatted) : formatted\<close>),
  so the output row's \<open>_time\<close> is a Date object, not the integer of milliseconds.
\<close>

theorem formatFluxResults_unix_counterexample:
  "\<forall>h. formatTimestamp h (JDate (Some 1704110400000)) Unix = Inr (JNum (Finite 1704110400000))
       \<and> formatFluxResults h [[(''_time'', JDate (Some 1704110400000))]]
            (Some \<lparr>timestampFormat = Some Unix, flattenTables = None, limit = None\<rparr>) =
          Inr [[(''_time'', JDate (Some 1704110400000))]]
       \<and> JDate (Some 1704110400000) \<noteq> JNum (Finite 1704110400000)"
  by (simp add: formatFluxResults_def optTimestampFormat_def optLimit_def formatTimestamp_def
      getTime_def timeNumber_def newDate_def setProp_def)

lemma newDate_timeNumber:
  "\<bar>t\<bar> \<le> 8640000000000000 \<Longrightarrow> newDate (timeNumber (Some t)) = JDate (Some t)"
proof -
  assume a: "\<bar>t\<bar> \<le> 8640000000000000"
  then have "\<bar>real_of_int t\<bar> \<le> 8640000000000000" by linarith
  then show ?thesis by (simp add: newDate_def timeNumber_def)
qed

text \<open>
  C6, amended. With \<open>timestampFormat = 'unix'\<close>, for an input row whose \<open>_time\<close> is a valid
  date (a Date object with time value \<open>t\<close>, or a non-empty string that the host parses to
  \<open>t\<close>), \<open>formatTimestamp(value, 'unix')\<close> is the integer \<open>t\<close> of milliseconds since the
  epoch, and the corresponding output row carries as \<open>_time\<close> a Date object whose time
  value is that \<open>t\<close>.
\<close>

theorem formatFluxResults_unix_time:
  assumes "formatFluxResults h rows options = Inr out"
    and "optTimestampFormat options = Unix"
    and "i < length out"
    and "distinct (map fst (rows ! i))"
    and "map_of (rows ! i) ''_time'' = Some v"
    and "v = JDate (Some t) \<or> (\<exists>s. v = JStr s \<and> s \<noteq> [] \<and> dateParse h s = Some t)"
    and "\<bar>t\<bar> \<le> 8640000000000000"
  shows "formatTimestamp h v Unix = Inr (JNum (Finite (of_int t)))
         \<and> map_of (out ! i) ''_time'' = Some (JDate (Some t))"
proof -
  from assms(6) have tr: "truthy v" by auto
  from assms(6) have f: "formatTimestamp h v Unix = Inr (JNum (timeNumber (Some t)))"
    by (auto simp add: formatTimestamp_def getTime_def)
  obtain mapped where m: "mapRows h Unix rows = Inr mapped"
    and o: "out = (if 0 < optLimit options then slice0 mapped (optLimit options) else mapped)"
    using assms(1,2) by (auto simp add: formatFluxResults_def Let_def split: sum.splits if_splits)
  from o assms(3) have i: "i < length mapped" and n: "out ! i = mapped ! i"
    by (auto simp add: slice0_def split: if_splits)
  from m have l: "list_all2 (\<lambda>r m. formatRow h Unix r [] = Inr m) rows mapped"
    by (simp only: mapRows_list_all2)
  with i have r: "formatRow h Unix (rows ! i) [] = Inr (mapped ! i)"
    by (simp add: list_all2_conv_all_nth)
  from formatRow_time[OF r assms(4,5) tr] f
  have "map_of (mapped ! i) ''_time'' = Some (newDate (timeNumber (Some t)))" by auto
  with n newDate_timeNumber[OF assms(7)]
  have "map_of (out ! i) ''_time'' = Some (JDate (Some t))" by simp
  with f show ?thesis by (simp add: timeNumber_def)
qed

theorem formatFluxResults_unix_time_witness:
  "\<forall>h. formatFluxResults h
          [[(''result'', JStr ''_result''), (''_time'', JDate (Some 1704110400000)),
            (''_value'', JNum (Finite 23))]]
          (Some \<lparr>timestampFormat = Some Unix, flattenTables = None, limit = None\<rparr>) =
        Inr [[(''_time'', JDate (Some 1704110400000)), (''_value'', JNum (Finite 23))]]
      \<and> formatTimestamp h (JDate (Some 1704110400000)) Unix = Inr (JNum (Finite 1704110400000))
      \<and> map_of ([[(''_time'', JDate (Some 1704110400000)), (''_value'', JNum (Finite 23))]] ! 0)
          ''_time'' = Some (JDate (Some 1704110400000))"
proof
  fix h :: host
  let ?rows = "[[(''result'', JStr ''_result''), (''_time'', JDate (Some 1704110400000)),
            (''_value'', JNum (Finite 23))]]"
  let ?options = "Some \<lparr>timestampFormat = Some Unix, flattenTables = None, limit = None\<rparr>"
  let ?out = "[[(''_time'', JDate (Some 1704110400000)), (''_value'', JNum (Finite 23))]]"
  have a: "formatFluxResults h ?rows ?options = Inr ?out"
    by (simp add: formatFluxResults_def optTimestampFormat_def optLimit_def formatTimestamp_def
        getTime_def timeNumber_def newDate_def setProp_def)
  have b: "optTimestampFormat ?options = Unix" by (simp add: optTimestampFormat_def)
  have c: "(0::nat) < length ?out" by simp
  have d: "distinct (map fst (?rows ! 0))" by simp
  have e: "map_of (?rows ! 0) ''_time'' = Some (JDate (Some 1704110400000))" by simp
  have f: "JDate (Some 1704110400000) = JDate (Some 1704110400000)
           \<or> (\<exists>s. JDate (Some 1704110400000) = JStr s \<and> s \<noteq> [] \<and> dateParse h s = Some 1704110400000)"
    by simp
  have g: "\<bar>1704110400000 :: int\<bar> \<le> 8640000000000000" by simp
  from formatFluxResults_unix_time [OF a b c d e f g] a
  show "formatFluxResults h ?rows ?options = Inr ?out
      \<and> formatTimestamp h (JDate (Some 1704110400000)) Unix = Inr (JNum (Finite 1704110400000))
      \<and> map_of (?out ! 0) ''_time'' = Some (JDate (Some 1704110400000))"
    by simp
qed

end
